theory Spec2Isabelle
  imports Complex_Main "HOL-Library.AList" "HOL-Library.Sublist" "HOL-Library.Log_Nat"
begin

section \<open>Benchmark orchestration core of \<open>calculate_mcp_metrics.py\<close>\<close>

text \<open>
  The module replays dialogues against two systems under test, scores every turn and
  aggregates the scores. Its methods mutate the orchestrator object in place and may be
  interrupted by an exception at any external call. A method is therefore modelled as a
  function from the state before the call to an outcome and the state after it: the
  outcome is \<open>Inr\<close> of the returned value or \<open>Inl\<close> of the exception raised, and the state
  returned with an exception is the state the exception leaves behind (Python does not
  roll mutations back).
\<close>

subsection \<open>Exceptions and programs\<close>

datatype error = IndexError | KeyError | AttributeError | CallFailed string

type_synonym ('s, 'a) prog = "'s \<Rightarrow> (error + 'a) \<times> 's"

definition ret :: "'a \<Rightarrow> ('s, 'a) prog" where
  "ret a s = (Inr a, s)"

definition raise :: "error \<Rightarrow> ('s, 'a) prog" where
  "raise e s = (Inl e, s)"

definition seq :: "('s, 'a) prog \<Rightarrow> ('a \<Rightarrow> ('s, 'b) prog) \<Rightarrow> ('s, 'b) prog" where
  "seq m f s = (case m s of (Inl e, s') \<Rightarrow> (Inl e, s') | (Inr a, s') \<Rightarrow> f a s')"

definition modify :: "('s \<Rightarrow> 's) \<Rightarrow> ('s, unit) prog" where
  "modify f s = (Inr (), f s)"

text \<open>A Python \<open>for x in xs: body\<close>: the first exception ends the loop.\<close>

fun for_each :: "'a list \<Rightarrow> ('a \<Rightarrow> ('s, unit) prog) \<Rightarrow> ('s, unit) prog" where
  "for_each [] body = ret ()"
| "for_each (x # xs) body = seq (body x) (\<lambda>_. for_each xs body)"

subsection \<open>Pairwise tallies\<close>

text \<open>
  \<open>ComparisonResult\<close> is declared in \<open>llm_evaluation.py\<close>, which is not part of the
  sources at hand; the module names two of its members and treats every other value
  alike. Modelled from the spec: the judgment scorer's ordinal result is one of
  first-is-better, second-is-better and tie.
\<close>

datatype ComparisonResult = RESPONSE_1_BETTER | RESPONSE_2_BETTER | TIE

text \<open>The object returned by \<open>evaluate_pairwise\<close>: one ordinal result per metric.\<close>

record PairwiseScore =
  cmp_faithfulness :: ComparisonResult
  cmp_informativeness :: ComparisonResult
  cmp_coherency :: ComparisonResult

text \<open>
  A tally is a Python \<open>Dict[str, int]\<close>: an association list in insertion order.
  \<open>d[k] += 1\<close> reads the entry first and raises \<open>KeyError\<close> when it is missing.
\<close>

type_synonym tally = "(string \<times> int) list"

definition dict_incr :: "string \<Rightarrow> (tally, unit) prog" where
  "dict_incr k d =
     (case map_of d k of
        None \<Rightarrow> (Inl KeyError, d)
      | Some v \<Rightarrow> (Inr (), AList.update k (v + 1) d))"

definition new_tally :: tally where
  "new_tally = [(''recsum'', 0), (''baseline'', 0), (''draw'', 0)]"

record PairwiseResults =
  pw_faithfulness :: tally
  pw_informativeness :: tally
  pw_coherency :: tally

definition new_PairwiseResults :: PairwiseResults where
  "new_PairwiseResults =
     \<lparr>pw_faithfulness = new_tally, pw_informativeness = new_tally, pw_coherency = new_tally\<rparr>"

definition get_total_count :: "PairwiseResults \<Rightarrow> int" where
  "get_total_count p = sum_list (map snd (pw_faithfulness p))"

definition metrics :: "string list" where
  "metrics = [''faithfulness'', ''informativeness'', ''coherency'']"

text \<open>\<open>getattr(score, metric)\<close> and \<open>getattr(self._pairwise_data, metric)\<close>.\<close>

definition getattr_score :: "PairwiseScore \<Rightarrow> string \<Rightarrow> error + ComparisonResult" where
  "getattr_score score metric =
     (if metric = ''faithfulness'' then Inr (cmp_faithfulness score)
      else if metric = ''informativeness'' then Inr (cmp_informativeness score)
      else if metric = ''coherency'' then Inr (cmp_coherency score)
      else Inl AttributeError)"

definition getattr_tally :: "PairwiseResults \<Rightarrow> string \<Rightarrow> error + tally" where
  "getattr_tally p metric =
     (if metric = ''faithfulness'' then Inr (pw_faithfulness p)
      else if metric = ''informativeness'' then Inr (pw_informativeness p)
      else if metric = ''coherency'' then Inr (pw_coherency p)
      else Inl AttributeError)"

text \<open>
  The dictionary reached through \<open>getattr\<close> is the tally object itself, so an update of
  \<open>result_dict\<close> is an update of that field of the tallies.
\<close>

definition on_tally :: "string \<Rightarrow> (tally, unit) prog \<Rightarrow> (PairwiseResults, unit) prog" where
  "on_tally metric m p =
     (if metric = ''faithfulness'' then
        (case m (pw_faithfulness p) of (r, d) \<Rightarrow> (r, p\<lparr>pw_faithfulness := d\<rparr>))
      else if metric = ''informativeness'' then
        (case m (pw_informativeness p) of (r, d) \<Rightarrow> (r, p\<lparr>pw_informativeness := d\<rparr>))
      else if metric = ''coherency'' then
        (case m (pw_coherency p) of (r, d) \<Rightarrow> (r, p\<lparr>pw_coherency := d\<rparr>))
      else (Inl AttributeError, p))"

definition count_metric :: "PairwiseScore \<Rightarrow> bool \<Rightarrow> string \<Rightarrow> (PairwiseResults, unit) prog" where
  "count_metric score recsum_first metric =
     (case getattr_score score metric of
        Inl e \<Rightarrow> raise e
      | Inr score_value \<Rightarrow>
          if score_value = RESPONSE_1_BETTER then
            on_tally metric (dict_incr (if recsum_first then ''recsum'' else ''baseline''))
          else if score_value = RESPONSE_2_BETTER then
            on_tally metric (dict_incr (if recsum_first then ''baseline'' else ''recsum''))
          else on_tally metric (dict_incr ''draw''))"

definition update_pairwise_counts :: "PairwiseScore \<Rightarrow> bool \<Rightarrow> (PairwiseResults, unit) prog" where
  "update_pairwise_counts score recsum_first =
     for_each metrics (count_metric score recsum_first)"


text \<open>
  Every tally is created with the three keys \<open>recsum\<close>, \<open>baseline\<close> and \<open>draw\<close>, and no
  statement of the module adds or removes a key: this is the shape every reachable tally
  has.
\<close>

definition wf_tally :: "tally \<Rightarrow> bool" where
  "wf_tally d = (map fst d = [''recsum'', ''baseline'', ''draw''])"

definition wf_pairwise :: "PairwiseResults \<Rightarrow> bool" where
  "wf_pairwise p = (wf_tally (pw_faithfulness p) \<and> wf_tally (pw_informativeness p) \<and> wf_tally (pw_coherency p))"

text \<open>A run of pairwise judgments: one call of \<open>_update_pairwise_counts\<close> for each.\<close>

definition judgments :: "(PairwiseScore \<times> bool) list \<Rightarrow> (PairwiseResults, unit) prog" where
  "judgments js = for_each js (\<lambda>(score, recsum_first). update_pairwise_counts score recsum_first)"

lemma wf_tally_iff: "wf_tally d \<longleftrightarrow> (\<exists>a b c. d = [(''recsum'', a), (''baseline'', b), (''draw'', c)])"
  unfolding wf_tally_def
  by (auto simp: map_eq_Cons_conv)

lemma wf_new_PairwiseResults: "wf_pairwise new_PairwiseResults"
  by (simp add: wf_pairwise_def new_PairwiseResults_def new_tally_def wf_tally_def)

text \<open>
  For the proofs: the key a judgment credits, and the tally with that key's counter
  raised by one.
\<close>

fun credited :: "ComparisonResult \<Rightarrow> bool \<Rightarrow> string" where
  "credited RESPONSE_1_BETTER recsum_first = (if recsum_first then ''recsum'' else ''baseline'')"
| "credited RESPONSE_2_BETTER recsum_first = (if recsum_first then ''baseline'' else ''recsum'')"
| "credited TIE recsum_first = ''draw''"

definition bumped :: "string \<Rightarrow> tally \<Rightarrow> tally" where
  "bumped k d = map (\<lambda>(j, v). (j, if j = k then v + 1 else v)) d"

lemma credited_cases: "credited r f = ''recsum'' \<or> credited r f = ''baseline'' \<or> credited r f = ''draw''"
  by (cases r) auto

lemma dict_incr_wf:
  assumes "wf_tally d" and "k = ''recsum'' \<or> k = ''baseline'' \<or> k = ''draw''"
  shows "dict_incr k d = (Inr (), bumped k d)"
  using assms by (auto simp: wf_tally_iff dict_incr_def bumped_def)

lemma bumped_wf: "wf_tally d \<Longrightarrow> wf_tally (bumped k d)"
  by (auto simp: wf_tally_iff bumped_def)

lemma bumped_sum:
  assumes "wf_tally d" and "k = ''recsum'' \<or> k = ''baseline'' \<or> k = ''draw''"
  shows "sum_list (map snd (bumped k d)) = sum_list (map snd d) + 1"
  using assms by (auto simp: wf_tally_iff bumped_def)

lemma count_metric_faithfulness:
  assumes "wf_tally (pw_faithfulness p)"
  shows "count_metric score f ''faithfulness'' p =
     (Inr (), p\<lparr>pw_faithfulness := bumped (credited (cmp_faithfulness score) f) (pw_faithfulness p)\<rparr>)"
  using dict_incr_wf[OF assms credited_cases, of "cmp_faithfulness score" f]
  by (cases "cmp_faithfulness score") (simp_all add: count_metric_def getattr_score_def on_tally_def)

lemma count_metric_informativeness:
  assumes "wf_tally (pw_informativeness p)"
  shows "count_metric score f ''informativeness'' p =
     (Inr (), p\<lparr>pw_informativeness := bumped (credited (cmp_informativeness score) f) (pw_informativeness p)\<rparr>)"
  using dict_incr_wf[OF assms credited_cases, of "cmp_informativeness score" f]
  by (cases "cmp_informativeness score") (simp_all add: count_metric_def getattr_score_def on_tally_def)

lemma count_metric_coherency:
  assumes "wf_tally (pw_coherency p)"
  shows "count_metric score f ''coherency'' p =
     (Inr (), p\<lparr>pw_coherency := bumped (credited (cmp_coherency score) f) (pw_coherency p)\<rparr>)"
  using dict_incr_wf[OF assms credited_cases, of "cmp_coherency score" f]
  by (cases "cmp_coherency score") (simp_all add: count_metric_def getattr_score_def on_tally_def)

lemma update_pairwise_counts_eq:
  assumes "wf_pairwise p"
  shows "update_pairwise_counts score f p =
     (Inr (), \<lparr>pw_faithfulness = bumped (credited (cmp_faithfulness score) f) (pw_faithfulness p),
               pw_informativeness = bumped (credited (cmp_informativeness score) f) (pw_informativeness p),
               pw_coherency = bumped (credited (cmp_coherency score) f) (pw_coherency p)\<rparr>)"
  using assms
  by (simp add: update_pairwise_counts_def metrics_def seq_def ret_def wf_pairwise_def
      count_metric_faithfulness count_metric_informativeness count_metric_coherency)


text \<open>
  Claim C6. The scorer's ordinal result is mapped back through the order flag: for each
  metric, first-is-better credits the candidate (\<open>recsum\<close>) when the candidate was shown
  first and the baseline when the baseline was shown first; second-is-better credits the
  other system; any other result (a tie) raises the draw counter. Exactly that counter
  of the metric goes up by one and the other two keep their values.
\<close>

theorem update_pairwise_counts_debias:
  assumes "wf_pairwise p"
    and "metric \<in> set metrics"
    and "getattr_score score metric = Inr r"
    and "getattr_tally p metric = Inr [(''recsum'', a), (''baseline'', b), (''draw'', c)]"
  shows "\<exists>p'. update_pairwise_counts score recsum_first p = (Inr (), p') \<and>
     getattr_tally p' metric = Inr
       (if r = RESPONSE_1_BETTER \<and> recsum_first \<or> r = RESPONSE_2_BETTER \<and> \<not> recsum_first
        then [(''recsum'', a + 1), (''baseline'', b), (''draw'', c)]
        else if r = RESPONSE_1_BETTER \<and> \<not> recsum_first \<or> r = RESPONSE_2_BETTER \<and> recsum_first
        then [(''recsum'', a), (''baseline'', b + 1), (''draw'', c)]
        else [(''recsum'', a), (''baseline'', b), (''draw'', c + 1)])"
proof -
  note eq = update_pairwise_counts_eq[OF assms(1), of score recsum_first]
  from assms(2) consider "metric = ''faithfulness''" | "metric = ''informativeness''"
    | "metric = ''coherency''"
    by (auto simp: metrics_def)
  then show ?thesis
  proof cases
    case 1
    with assms(3,4) show ?thesis
      unfolding eq by (cases r) (auto simp: getattr_score_def getattr_tally_def bumped_def)
  next
    case 2
    with assms(3,4) show ?thesis
      unfolding eq by (cases r) (auto simp: getattr_score_def getattr_tally_def bumped_def)
  next
    case 3
    with assms(3,4) show ?thesis
      unfolding eq by (cases r) (auto simp: getattr_score_def getattr_tally_def bumped_def)
  qed
qed

theorem update_pairwise_counts_debias_witness:
  "update_pairwise_counts
      \<lparr>cmp_faithfulness = TIE, cmp_informativeness = RESPONSE_1_BETTER,
       cmp_coherency = RESPONSE_2_BETTER\<rparr> False new_PairwiseResults =
    (Inr (), \<lparr>pw_faithfulness = [(''recsum'', 0), (''baseline'', 0), (''draw'', 1)],
              pw_informativeness = [(''recsum'', 0), (''baseline'', 1), (''draw'', 0)],
              pw_coherency = [(''recsum'', 1), (''baseline'', 0), (''draw'', 0)]\<rparr>)"
proof -
  let ?sc = "\<lparr>cmp_faithfulness = TIE, cmp_informativeness = RESPONSE_1_BETTER,
       cmp_coherency = RESPONSE_2_BETTER\<rparr>"
  have m: "''informativeness'' \<in> set metrics" by (simp add: metrics_def)
  have s: "getattr_score ?sc ''informativeness'' = Inr RESPONSE_1_BETTER"
    by (simp add: getattr_score_def)
  have t: "getattr_tally new_PairwiseResults ''informativeness'' =
      Inr [(''recsum'', 0), (''baseline'', 0), (''draw'', 0)]"
    by (simp add: getattr_tally_def new_PairwiseResults_def new_tally_def)
  from update_pairwise_counts_debias[OF wf_new_PairwiseResults m s t, of False]
  obtain p' where "update_pairwise_counts ?sc False new_PairwiseResults = (Inr (), p')"
    and "getattr_tally p' ''informativeness'' = Inr [(''recsum'', 0), (''baseline'', 1), (''draw'', 0)]"
    by auto
  then show ?thesis
    by (simp add: update_pairwise_counts_def metrics_def seq_def ret_def count_metric_def
        getattr_score_def on_tally_def dict_incr_def new_PairwiseResults_def new_tally_def)
qed

lemma update_pairwise_counts_sums:
  assumes "wf_pairwise p"
  shows "\<exists>p'. update_pairwise_counts score f p = (Inr (), p') \<and> wf_pairwise p' \<and>
     sum_list (map snd (pw_faithfulness p')) = sum_list (map snd (pw_faithfulness p)) + 1 \<and>
     sum_list (map snd (pw_informativeness p')) = sum_list (map snd (pw_informativeness p)) + 1 \<and>
     sum_list (map snd (pw_coherency p')) = sum_list (map snd (pw_coherency p)) + 1"
  using assms unfolding update_pairwise_counts_eq[OF assms]
  by (simp add: wf_pairwise_def bumped_wf bumped_sum credited_cases)

lemma judgments_sums:
  "wf_pairwise p \<Longrightarrow> \<exists>p'. judgments js p = (Inr (), p') \<and> wf_pairwise p' \<and>
     sum_list (map snd (pw_faithfulness p')) = sum_list (map snd (pw_faithfulness p)) + int (length js) \<and>
     sum_list (map snd (pw_informativeness p')) = sum_list (map snd (pw_informativeness p)) + int (length js) \<and>
     sum_list (map snd (pw_coherency p')) = sum_list (map snd (pw_coherency p)) + int (length js)"
proof (induction js arbitrary: p)
  case Nil
  then show ?case by (simp add: judgments_def ret_def)
next
  case (Cons j js)
  obtain score f where j: "j = (score, f)" by (cases j)
  from update_pairwise_counts_sums[OF Cons.prems, of score f] obtain p1
    where p1: "update_pairwise_counts score f p = (Inr (), p1)" "wf_pairwise p1"
      "sum_list (map snd (pw_faithfulness p1)) = sum_list (map snd (pw_faithfulness p)) + 1"
      "sum_list (map snd (pw_informativeness p1)) = sum_list (map snd (pw_informativeness p)) + 1"
      "sum_list (map snd (pw_coherency p1)) = sum_list (map snd (pw_coherency p)) + 1"
    by blast
  from Cons.IH[OF p1(2)] obtain p' where p': "judgments js p1 = (Inr (), p')" "wf_pairwise p'"
      "sum_list (map snd (pw_faithfulness p')) = sum_list (map snd (pw_faithfulness p1)) + int (length js)"
      "sum_list (map snd (pw_informativeness p')) = sum_list (map snd (pw_informativeness p1)) + int (length js)"
      "sum_list (map snd (pw_coherency p')) = sum_list (map snd (pw_coherency p1)) + int (length js)"
    by blast
  have "judgments (j # js) p = (Inr (), p')"
    using p1(1) p'(1) by (simp add: judgments_def j seq_def)
  with p1 p' show ?case by simp
qed

text \<open>
  Claim C7. Starting from fresh tallies, after any sequence of completed pairwise
  judgments the three counters of each preference metric sum to the number of judgments,
  the total is the same for faithfulness, informativeness and coherency, and
  \<open>get_total_count\<close> returns it. No judgment can fail inside the update.
\<close>

theorem pairwise_totals:
  "\<exists>p. judgments js new_PairwiseResults = (Inr (), p) \<and>
     sum_list (map snd (pw_faithfulness p)) = int (length js) \<and>
     sum_list (map snd (pw_informativeness p)) = int (length js) \<and>
     sum_list (map snd (pw_coherency p)) = int (length js) \<and>
     get_total_count p = int (length js)"
  using judgments_sums[OF wf_new_PairwiseResults, of js]
  by (auto simp: get_total_count_def new_PairwiseResults_def new_tally_def)

theorem pairwise_totals_witness:
  "get_total_count (snd (judgments
      [(\<lparr>cmp_faithfulness = TIE, cmp_informativeness = RESPONSE_1_BETTER,
          cmp_coherency = RESPONSE_2_BETTER\<rparr>, True),
       (\<lparr>cmp_faithfulness = RESPONSE_2_BETTER, cmp_informativeness = RESPONSE_1_BETTER,
          cmp_coherency = TIE\<rparr>, False)] new_PairwiseResults)) = 2"
  using pairwise_totals[of "[(\<lparr>cmp_faithfulness = TIE, cmp_informativeness = RESPONSE_1_BETTER,
          cmp_coherency = RESPONSE_2_BETTER\<rparr>, True),
       (\<lparr>cmp_faithfulness = RESPONSE_2_BETTER, cmp_informativeness = RESPONSE_1_BETTER,
          cmp_coherency = TIE\<rparr>, False)]"]
  by auto


subsection \<open>Descriptive statistics\<close>

text \<open>
  The samples are Python floats and \<open>MetricStats.from_values\<close> hands them to numpy, so
  the statistics are computed in IEEE 754 binary64 arithmetic. A finite float is modelled
  as the real number it denotes, and an arithmetic operation as the exact operation
  followed by rounding to the nearest binary64 value, ties to even (53 significant bits,
  gradual underflow below \<open>2 powi -1022\<close>). Infinities and NaN are not modelled: the
  model covers finite samples whose intermediate results stay below the overflow
  threshold.
\<close>

definition round_half_even :: "real \<Rightarrow> int" where
  "round_half_even x =
     (let f = \<lfloor>x\<rfloor>; d = x - of_int f
      in if d < 1 / 2 then f else if 1 / 2 < d then f + 1 else if even f then f else f + 1)"

definition ilog2 :: "real \<Rightarrow> int" where
  "ilog2 x = (if 1 \<le> x then bitlen \<lfloor>x\<rfloor> - 1 else - bitlen (\<lceil>1 / x\<rceil> - 1))"

definition round64 :: "real \<Rightarrow> real" where
  "round64 x =
     (if x = 0 then 0
      else let e = max (ilog2 \<bar>x\<bar>) (- 1022); q = 2 powi (e - 52)
           in of_int (round_half_even (x / q)) * q)"

text \<open>
  \<open>np.mean\<close> adds the samples in float64 and divides by their number; \<open>np.std\<close> (with
  its default \<open>ddof = 0\<close>) takes the mean, the rounded squares of the rounded deviations,
  their float64 sum divided by the number of samples, and the square root. The rounding
  is a parameter, so that the same definitions read in exact arithmetic (no rounding)
  give the reference values. The sum is taken from left to right, which is numpy's order
  for fewer than eight samples; for longer arrays numpy adds in blocks, which changes
  which intermediate sums are rounded and nothing else.
\<close>

definition np_sum :: "(real \<Rightarrow> real) \<Rightarrow> real list \<Rightarrow> real" where
  "np_sum rnd xs = foldl (\<lambda>acc x. rnd (acc + x)) 0 xs"

definition np_mean :: "(real \<Rightarrow> real) \<Rightarrow> real list \<Rightarrow> real" where
  "np_mean rnd xs = rnd (np_sum rnd xs / of_nat (length xs))"


definition np_std :: "(real \<Rightarrow> real) \<Rightarrow> real list \<Rightarrow> real" where
  "np_std rnd xs =
     (let arrmean = np_mean rnd xs;
          x = map (\<lambda>v. rnd (v - arrmean)) xs;
          x2 = map (\<lambda>d. rnd (d * d)) x
      in rnd (sqrt (rnd (np_sum rnd x2 / of_nat (length xs)))))"

record MetricStats =
  mean :: real
  std :: real
  min_val :: real
  max_val :: real
  count :: int

definition new_MetricStats :: MetricStats where
  "new_MetricStats = \<lparr>mean = 0, std = 0, min_val = 0, max_val = 0, count = 0\<rparr>"

text \<open>
  \<open>from_values\<close>: the empty list gives the default-constructed record; \<open>np.min\<close> and
  \<open>np.max\<close> select an element and round nothing.
\<close>

definition from_values_with :: "(real \<Rightarrow> real) \<Rightarrow> real list \<Rightarrow> MetricStats" where
  "from_values_with rnd values =
     (case values of
        [] \<Rightarrow> new_MetricStats
      | v # vs \<Rightarrow>
          \<lparr>mean = np_mean rnd values, std = np_std rnd values,
           min_val = fold min vs v, max_val = fold max vs v,
           count = int (length values)\<rparr>)"

definition from_values :: "real list \<Rightarrow> MetricStats" where
  "from_values = from_values_with round64"














subsection \<open>Dataset, collaborators and orchestrator state\<close>

text \<open>
  The dataset classes live in \<open>deserialize_mcp_data.py\<close>, which is not among the sources.
  The module uses them as follows: \<open>dataset.sessions\<close> is a list of dialogues, a dialogue
  is a list whose elements carry a list \<open>messages\<close>, a message carries the string
  \<open>message\<close>, and \<open>dataset.memory[i][-1]\<close> is the memory string of dialogue \<open>i\<close>.
\<close>

record Message =
  role :: string
  message :: string

record Session =
  messages :: "Message list"

type_synonym dialogue = "Session list"

record MCPDataset =
  sessions :: "dialogue list"
  memory :: "string list list"

text \<open>
  The scores returned by the two scorers. The attributes \<open>precision\<close>, \<open>recall\<close> and
  \<open>f1\<close> of a similarity score are named \<open>sim_precision\<close>, \<open>sim_recall\<close> and \<open>sim_f1\<close> here,
  apart from the buffers of the same names.
\<close>

record SemanticScore =
  sim_precision :: real
  sim_recall :: real
  sim_f1 :: real

record SingleScore =
  faithfulness_score :: real
  informativeness_score :: real
  coherency_score :: real

text \<open>
  The external collaborators: the two systems under test, the two scorers, the random
  generator, the clock and the rendering \<open>str\<close> of a session. Their code is outside the
  module, they may keep state of their own and a call may raise. Each is a function of an
  outside world \<open>'w\<close> that returns the new world with its result. A collaborator receives
  the dialogue as a value: by the contract of the systems under test it does not mutate
  the dialogue it is given. \<open>recsum_process_dialogue\<close> stands for
  \<open>self.recsum.process_dialogue(...).response\<close>.
\<close>

record 'w collaborators =
  recsum_process_dialogue :: "dialogue \<Rightarrow> string \<Rightarrow> 'w \<Rightarrow> (error + string) \<times> 'w"
  baseline_process_dialogue :: "dialogue \<Rightarrow> string \<Rightarrow> 'w \<Rightarrow> (error + string) \<times> 'w"
  compute_similarity :: "string \<Rightarrow> string \<Rightarrow> 'w \<Rightarrow> (error + SemanticScore) \<times> 'w"
  evaluate_single :: "string \<Rightarrow> string \<Rightarrow> string \<Rightarrow> 'w \<Rightarrow> (error + SingleScore) \<times> 'w"
  evaluate_pairwise ::
    "string \<Rightarrow> string \<Rightarrow> string \<Rightarrow> string \<Rightarrow> 'w \<Rightarrow> (error + PairwiseScore) \<times> 'w"
  random_random :: "'w \<Rightarrow> real \<times> 'w"
  now_isoformat :: "'w \<Rightarrow> string \<times> 'w"
  str_session :: "Session \<Rightarrow> string"

record RawSemanticData =
  precision :: "real list"
  recall :: "real list"
  f1 :: "real list"

record RawLLMData =
  faithfulness :: "real list"
  informativeness :: "real list"
  coherency :: "real list"

definition new_RawSemanticData :: RawSemanticData where
  "new_RawSemanticData = \<lparr>precision = [], recall = [], f1 = []\<rparr>"

definition new_RawLLMData :: RawLLMData where
  "new_RawLLMData = \<lparr>faithfulness = [], informativeness = [], coherency = []\<rparr>"

text \<open>
  The fields of a \<open>CalculateMCPMetrics\<close> object. The dataset is part of the state: the
  dialogues that \<open>calculate\<close> walks through are the dataset's own objects
  (\<open>sessions.copy()\<close> copies the outer list only), so a \<open>pop\<close> on a dialogue's message
  list is a change of the dataset. A dialogue is addressed by its index in
  \<open>dataset.sessions\<close>; distinct indices are taken to hold distinct objects.
\<close>

record 'w CalculateMCPMetrics =
  dataset :: MCPDataset
  recsum_semantic_data :: RawSemanticData
  baseline_semantic_data :: RawSemanticData
  recsum_llm_data :: RawLLMData
  baseline_llm_data :: RawLLMData
  pairwise_data :: PairwiseResults
  message_count :: int
  n_samples :: int
  is_calculated :: bool
  world :: 'w

text \<open>\<open>__init__\<close>, given the dataset that \<open>MCPDataset(n_samples)\<close> constructs.\<close>

definition new_CalculateMCPMetrics :: "MCPDataset \<Rightarrow> int \<Rightarrow> 'w \<Rightarrow> 'w CalculateMCPMetrics" where
  "new_CalculateMCPMetrics ds n w =
     \<lparr>dataset = ds,
      recsum_semantic_data = new_RawSemanticData,
      baseline_semantic_data = new_RawSemanticData,
      recsum_llm_data = new_RawLLMData,
      baseline_llm_data = new_RawLLMData,
      pairwise_data = new_PairwiseResults,
      message_count = 0,
      n_samples = n,
      is_calculated = False,
      world = w\<rparr>"

subsection \<open>State access\<close>

definition reads :: "('s \<Rightarrow> 'a) \<Rightarrow> ('s, 'a) prog" where
  "reads f s = (Inr (f s), s)"

definition call :: "('w \<Rightarrow> (error + 'a) \<times> 'w) \<Rightarrow> ('w CalculateMCPMetrics, 'a) prog" where
  "call f s = (case f (world s) of (r, w') \<Rightarrow> (r, s\<lparr>world := w'\<rparr>))"

definition call_total :: "('w \<Rightarrow> 'a \<times> 'w) \<Rightarrow> ('w CalculateMCPMetrics, 'a) prog" where
  "call_total f s = (case f (world s) of (a, w') \<Rightarrow> (Inr a, s\<lparr>world := w'\<rparr>))"

definition on_pairwise :: "(PairwiseResults, 'a) prog \<Rightarrow> ('w CalculateMCPMetrics, 'a) prog" where
  "on_pairwise m s = (case m (pairwise_data s) of (r, p) \<Rightarrow> (r, s\<lparr>pairwise_data := p\<rparr>))"

text \<open>
  The dialogue object that \<open>calculate\<close> passes to \<open>_process_dialogue\<close> is the one at its
  index in the dataset. An index outside the dataset denotes no object; reading it is an
  \<open>IndexError\<close> in the model, a case \<open>calculate\<close> never produces.
\<close>

definition get_dialogue :: "nat \<Rightarrow> ('w CalculateMCPMetrics, dialogue) prog" where
  "get_dialogue i s =
     (if i < length (sessions (dataset s)) then (Inr (sessions (dataset s) ! i), s)
      else (Inl IndexError, s))"

text \<open>
  \<open>dialogue[-1].messages.pop()\<close> on dialogue \<open>i\<close>: \<open>IndexError\<close> when the dialogue has
  no element (\<open>dialogue[-1]\<close>) or its last element has no message (\<open>pop\<close> from an empty
  list), else the last message is removed from the list and returned.
\<close>

definition set_last_messages ::
  "nat \<Rightarrow> Message list \<Rightarrow> 'w CalculateMCPMetrics \<Rightarrow> 'w CalculateMCPMetrics" where
  "set_last_messages i ms s =
     (let ds = sessions (dataset s); d = ds ! i
      in s\<lparr>dataset := (dataset s)\<lparr>sessions := ds[i := butlast d @ [(last d)\<lparr>messages := ms\<rparr>]]\<rparr>\<rparr>)"

definition pop_message :: "nat \<Rightarrow> ('w CalculateMCPMetrics, Message) prog" where
  "pop_message i =
     seq (get_dialogue i) (\<lambda>d.
       if d = [] then raise IndexError
       else if messages (last d) = [] then raise IndexError
       else seq (modify (set_last_messages i (butlast (messages (last d)))))
              (\<lambda>_. ret (last (messages (last d)))))"

text \<open>\<open>self.dataset.memory[dialogue_index][-1]\<close>.\<close>

definition lookup_memory :: "nat \<Rightarrow> ('w CalculateMCPMetrics, string) prog" where
  "lookup_memory i s =
     (let m = memory (dataset s)
      in if i < length m \<and> m ! i \<noteq> [] then (Inr (last (m ! i)), s) else (Inl IndexError, s))"

subsection \<open>Scoring one turn\<close>

definition append_semantic :: "SemanticScore \<Rightarrow> RawSemanticData \<Rightarrow> RawSemanticData" where
  "append_semantic sc d =
     d\<lparr>recall := recall d @ [sim_recall sc],
       precision := precision d @ [sim_precision sc],
       f1 := f1 d @ [sim_f1 sc]\<rparr>"

definition update_semantic_scores ::
  "'w collaborators \<Rightarrow> string \<Rightarrow> string \<Rightarrow> string \<Rightarrow> ('w CalculateMCPMetrics, unit) prog" where
  "update_semantic_scores env recsum_response baseline_response ideal_response =
     seq (call (compute_similarity env recsum_response ideal_response)) (\<lambda>recsum_score.
     seq (modify (\<lambda>s. s\<lparr>recsum_semantic_data :=
            append_semantic recsum_score (recsum_semantic_data s)\<rparr>)) (\<lambda>_.
     seq (call (compute_similarity env baseline_response ideal_response)) (\<lambda>baseline_score.
     modify (\<lambda>s. s\<lparr>baseline_semantic_data :=
            append_semantic baseline_score (baseline_semantic_data s)\<rparr>))))"

definition append_llm :: "SingleScore \<Rightarrow> RawLLMData \<Rightarrow> RawLLMData" where
  "append_llm sc d =
     d\<lparr>faithfulness := faithfulness d @ [faithfulness_score sc],
       informativeness := informativeness d @ [informativeness_score sc],
       coherency := coherency d @ [coherency_score sc]\<rparr>"

definition update_llm_single_scores ::
  "'w collaborators \<Rightarrow> string \<Rightarrow> string \<Rightarrow> string \<Rightarrow> string \<Rightarrow> ('w CalculateMCPMetrics, unit) prog" where
  "update_llm_single_scores env recsum_response baseline_response context memory_value =
     seq (call (evaluate_single env context memory_value recsum_response)) (\<lambda>recsum_score.
     seq (modify (\<lambda>s. s\<lparr>recsum_llm_data := append_llm recsum_score (recsum_llm_data s)\<rparr>)) (\<lambda>_.
     seq (call (evaluate_single env context memory_value baseline_response)) (\<lambda>baseline_score.
     modify (\<lambda>s. s\<lparr>baseline_llm_data := append_llm baseline_score (baseline_llm_data s)\<rparr>))))"

definition update_llm_pairwise_scores ::
  "'w collaborators \<Rightarrow> string \<Rightarrow> string \<Rightarrow> string \<Rightarrow> string \<Rightarrow> ('w CalculateMCPMetrics, unit) prog" where
  "update_llm_pairwise_scores env context memory_value recsum_response baseline_response =
     seq (call_total (random_random env)) (\<lambda>r.
       if r < 0.5 then
         seq (call (evaluate_pairwise env context memory_value recsum_response baseline_response))
           (\<lambda>score. on_pairwise (update_pairwise_counts score True))
       else
         seq (call (evaluate_pairwise env context memory_value baseline_response recsum_response))
           (\<lambda>score. on_pairwise (update_pairwise_counts score False)))"

subsection \<open>Replaying a dialogue\<close>

text \<open>The body of the \<open>while\<close> loop of \<open>_process_dialogue\<close>.\<close>

definition turn :: "'w collaborators \<Rightarrow> nat \<Rightarrow> Message \<Rightarrow> ('w CalculateMCPMetrics, unit) prog" where
  "turn env i ideal_response =
     seq (modify (\<lambda>s. s\<lparr>message_count := message_count s + 1\<rparr>)) (\<lambda>_.
     seq (pop_message i) (\<lambda>query.
     seq (get_dialogue i) (\<lambda>dialogue.
     seq (call (recsum_process_dialogue env dialogue (message query))) (\<lambda>recsum_response.
     seq (call (baseline_process_dialogue env dialogue (message query))) (\<lambda>baseline_response.
     seq (update_semantic_scores env recsum_response baseline_response
            (message ideal_response)) (\<lambda>_.
     seq (reads (\<lambda>s. str_session env (last (sessions (dataset s) ! i)))) (\<lambda>context.
     seq (lookup_memory i) (\<lambda>memory_value.
     seq (update_llm_single_scores env recsum_response baseline_response context
            memory_value) (\<lambda>_.
     update_llm_pairwise_scores env context memory_value recsum_response
       baseline_response)))))))))"


subsection \<open>Reasoning about programs\<close>

lemma seq_Inr_iff:
  "seq m f s = (Inr b, s') \<longleftrightarrow> (\<exists>a s1. m s = (Inr a, s1) \<and> f a s1 = (Inr b, s'))"
  by (auto simp: seq_def split: prod.splits sum.splits)

lemma seq_Inl_iff:
  "seq m f s = (Inl e, s') \<longleftrightarrow>
     m s = (Inl e, s') \<or> (\<exists>a s1. m s = (Inr a, s1) \<and> f a s1 = (Inl e, s'))"
  by (auto simp: seq_def split: prod.splits sum.splits)

lemma modify_iff: "modify f s = (r, s') \<longleftrightarrow> r = Inr () \<and> s' = f s"
  by (auto simp: modify_def)

lemma ret_iff: "ret a s = (r, s') \<longleftrightarrow> r = Inr a \<and> s' = s"
  by (auto simp: ret_def)

lemma raise_iff: "raise e s = (r, s') \<longleftrightarrow> r = Inl e \<and> s' = s"
  by (auto simp: raise_def)

lemma reads_iff: "reads f s = (r, s') \<longleftrightarrow> r = Inr (f s) \<and> s' = s"
  by (auto simp: reads_def)

lemma call_iff: "call f s = (r, s') \<longleftrightarrow> (\<exists>w'. f (world s) = (r, w') \<and> s' = s\<lparr>world := w'\<rparr>)"
  by (auto simp: call_def split: prod.splits)

lemma call_total_iff:
  "call_total f s = (r, s') \<longleftrightarrow> (\<exists>a w'. f (world s) = (a, w') \<and> r = Inr a \<and> s' = s\<lparr>world := w'\<rparr>)"
  by (auto simp: call_total_def split: prod.splits)

lemma on_pairwise_iff:
  "on_pairwise m s = (r, s') \<longleftrightarrow> (\<exists>p. m (pairwise_data s) = (r, p) \<and> s' = s\<lparr>pairwise_data := p\<rparr>)"
  by (auto simp: on_pairwise_def split: prod.splits)

lemma get_dialogue_iff:
  "get_dialogue i s = (r, s') \<longleftrightarrow>
     s' = s \<and> (if i < length (sessions (dataset s)) then r = Inr (sessions (dataset s) ! i)
               else r = Inl IndexError)"
  by (auto simp: get_dialogue_def)

lemma lookup_memory_state: "lookup_memory i s = (r, s') \<Longrightarrow> s' = s"
  by (auto simp: lookup_memory_def Let_def split: if_splits)

text \<open>The outcome of a program: every result is of one of the two kinds.\<close>

lemma outcome_cases:
  obtains (Raised) e s' where "m s = (Inl e, s')" | (Returned) a s' where "m s = (Inr a, s')"
  by (cases "m s"; cases "fst (m s)") auto


text \<open>The fields that no scoring step writes.\<close>

definition kept :: "'w CalculateMCPMetrics \<Rightarrow> 'w CalculateMCPMetrics \<Rightarrow> bool" where
  "kept s s' \<longleftrightarrow>
     dataset s' = dataset s \<and> message_count s' = message_count s \<and>
     n_samples s' = n_samples s \<and> is_calculated s' = is_calculated s"

lemma update_semantic_scores_any:
  assumes "update_semantic_scores env a b c s = (r, s')"
  shows "kept s s' \<and> recsum_llm_data s' = recsum_llm_data s \<and>
     baseline_llm_data s' = baseline_llm_data s \<and> pairwise_data s' = pairwise_data s \<and>
     (recsum_semantic_data s' = recsum_semantic_data s \<or>
      (\<exists>x. recsum_semantic_data s' = append_semantic x (recsum_semantic_data s))) \<and>
     (baseline_semantic_data s' = baseline_semantic_data s \<or>
      (\<exists>y. baseline_semantic_data s' = append_semantic y (baseline_semantic_data s)))"
  using assms unfolding update_semantic_scores_def kept_def
  by (cases r) (auto simp: seq_Inr_iff seq_Inl_iff modify_iff call_iff)

lemma update_semantic_scores_Inr:
  assumes "update_semantic_scores env a b c s = (Inr u, s')"
  shows "(\<exists>x. recsum_semantic_data s' = append_semantic x (recsum_semantic_data s)) \<and>
     (\<exists>y. baseline_semantic_data s' = append_semantic y (baseline_semantic_data s))"
  using assms unfolding update_semantic_scores_def
  by (auto simp: seq_Inr_iff modify_iff call_iff)

lemma update_llm_single_scores_any:
  assumes "update_llm_single_scores env a b c d s = (r, s')"
  shows "kept s s' \<and> recsum_semantic_data s' = recsum_semantic_data s \<and>
     baseline_semantic_data s' = baseline_semantic_data s \<and> pairwise_data s' = pairwise_data s \<and>
     (recsum_llm_data s' = recsum_llm_data s \<or>
      (\<exists>x. recsum_llm_data s' = append_llm x (recsum_llm_data s))) \<and>
     (baseline_llm_data s' = baseline_llm_data s \<or>
      (\<exists>y. baseline_llm_data s' = append_llm y (baseline_llm_data s)))"
  using assms unfolding update_llm_single_scores_def kept_def
  by (cases r) (auto simp: seq_Inr_iff seq_Inl_iff modify_iff call_iff)

lemma update_llm_single_scores_Inr:
  assumes "update_llm_single_scores env a b c d s = (Inr u, s')"
  shows "(\<exists>x. recsum_llm_data s' = append_llm x (recsum_llm_data s)) \<and>
     (\<exists>y. baseline_llm_data s' = append_llm y (baseline_llm_data s))"
  using assms unfolding update_llm_single_scores_def
  by (auto simp: seq_Inr_iff modify_iff call_iff)

lemma update_llm_pairwise_scores_any:
  assumes "update_llm_pairwise_scores env a b c d s = (r, s')"
  shows "kept s s' \<and> recsum_semantic_data s' = recsum_semantic_data s \<and>
     baseline_semantic_data s' = baseline_semantic_data s \<and>
     recsum_llm_data s' = recsum_llm_data s \<and> baseline_llm_data s' = baseline_llm_data s"
  using assms unfolding update_llm_pairwise_scores_def kept_def
  by (cases r)
    (auto simp: seq_Inr_iff seq_Inl_iff call_iff call_total_iff on_pairwise_iff split: if_splits)


text \<open>
  The twelve raw-sample buffers, the candidate's six before the baseline's six, each
  group in the order precision, recall, f1, faithfulness, informativeness, coherency.
\<close>

definition buffers :: "'w CalculateMCPMetrics \<Rightarrow> real list list" where
  "buffers s =
     [precision (recsum_semantic_data s), recall (recsum_semantic_data s),
      f1 (recsum_semantic_data s),
      faithfulness (recsum_llm_data s), informativeness (recsum_llm_data s),
      coherency (recsum_llm_data s),
      precision (baseline_semantic_data s), recall (baseline_semantic_data s),
      f1 (baseline_semantic_data s),
      faithfulness (baseline_llm_data s), informativeness (baseline_llm_data s),
      coherency (baseline_llm_data s)]"

text \<open>
  What any step of the replay of dialogue \<open>i\<close> can do to the state, whether it returns or
  raises: buffers only grow at their end, the turn counter does not decrease, the
  configuration and the flag stay, the tallies keep their shape, and in the dataset only
  the message list of the last element of dialogue \<open>i\<close> changes, by losing messages at
  its end.
\<close>

definition data_evolves :: "nat \<Rightarrow> MCPDataset \<Rightarrow> MCPDataset \<Rightarrow> bool" where
  "data_evolves i D D' \<longleftrightarrow>
     memory D' = memory D \<and> length (sessions D') = length (sessions D) \<and>
     (\<forall>k. k \<noteq> i \<longrightarrow> sessions D' ! k = sessions D ! k) \<and>
     length (sessions D' ! i) = length (sessions D ! i) \<and>
     butlast (sessions D' ! i) = butlast (sessions D ! i) \<and>
     prefix (messages (last (sessions D' ! i))) (messages (last (sessions D ! i)))"

definition evolves :: "nat \<Rightarrow> 'w CalculateMCPMetrics \<Rightarrow> 'w CalculateMCPMetrics \<Rightarrow> bool" where
  "evolves i s s' \<longleftrightarrow>
     n_samples s' = n_samples s \<and> is_calculated s' = is_calculated s \<and>
     message_count s \<le> message_count s' \<and>
     list_all2 prefix (buffers s) (buffers s') \<and>
     (wf_pairwise (pairwise_data s) \<longrightarrow> wf_pairwise (pairwise_data s')) \<and>
     data_evolves i (dataset s) (dataset s')"

text \<open>A program keeps a relation when every run relates the state before to the state after.\<close>

definition keeps :: "('s \<Rightarrow> 's \<Rightarrow> bool) \<Rightarrow> ('s, 'a) prog \<Rightarrow> bool" where
  "keeps R m \<longleftrightarrow> (\<forall>s r s'. m s = (r, s') \<longrightarrow> R s s')"

lemma keepsD: "keeps R m \<Longrightarrow> m s = (r, s') \<Longrightarrow> R s s'"
  by (auto simp: keeps_def)

lemma keeps_seq:
  assumes "transp R" and "keeps R m" and "\<And>a. keeps R (f a)"
  shows "keeps R (seq m f)"
  unfolding keeps_def
proof (intro allI impI)
  fix s r s'
  assume *: "seq m f s = (r, s')"
  show "R s s'"
  proof (cases "m s")
    case (Pair r1 s1)
    then have 1: "R s s1" using assms(2) by (auto simp: keeps_def)
    show ?thesis
    proof (cases r1)
      case (Inl e)
      with Pair * have "s' = s1" by (simp add: seq_def)
      with 1 show ?thesis by simp
    next
      case (Inr a)
      with Pair * have "f a s1 = (r, s')" by (simp add: seq_def)
      then have "R s1 s'" using assms(3) by (auto simp: keeps_def)
      with 1 assms(1) show ?thesis by (auto dest: transpD)
    qed
  qed
qed

lemma keeps_ret: "reflp R \<Longrightarrow> keeps R (ret a)"
  by (auto simp: keeps_def ret_def reflp_def)

lemma keeps_raise: "reflp R \<Longrightarrow> keeps R (raise e)"
  by (auto simp: keeps_def raise_def reflp_def)

lemma keeps_reads: "reflp R \<Longrightarrow> keeps R (reads f)"
  by (auto simp: keeps_def reads_def reflp_def)

lemma keeps_for_each:
  assumes "transp R" and "reflp R" and "\<And>x. x \<in> set xs \<Longrightarrow> keeps R (body x)"
  shows "keeps R (for_each xs body)"
  using assms(3)
  by (induction xs) (auto intro!: keeps_seq keeps_ret assms(1,2))

lemma data_evolves_refl: "data_evolves i D D"
  by (simp add: data_evolves_def)

lemma data_evolves_trans:
  "data_evolves i D1 D2 \<Longrightarrow> data_evolves i D2 D3 \<Longrightarrow> data_evolves i D1 D3"
  unfolding data_evolves_def by (auto intro: prefix_order.trans)

lemma list_all2_prefix_refl: "list_all2 prefix xs xs"
  by (simp add: list_all2_refl)

lemma list_all2_prefix_trans:
  "list_all2 prefix xs ys \<Longrightarrow> list_all2 prefix ys zs \<Longrightarrow> list_all2 prefix xs zs"
  by (rule list_all2_trans[where ?P1.0 = prefix and ?P2.0 = prefix]) (auto intro: prefix_order.trans)

lemma evolves_reflp: "reflp (evolves i)"
  by (auto simp: reflp_def evolves_def data_evolves_refl list_all2_prefix_refl)

lemma evolves_transp: "transp (evolves i)"
  unfolding transp_def evolves_def
  by (auto intro: data_evolves_trans list_all2_prefix_trans)


lemma keeps_call: "keeps (evolves i) (call f)"
  by (auto simp: keeps_def call_iff evolves_def buffers_def data_evolves_refl)

lemma keeps_call_total: "keeps (evolves i) (call_total f)"
  by (auto simp: keeps_def call_total_iff evolves_def buffers_def data_evolves_refl)

lemma keeps_get_dialogue: "keeps (evolves i) (get_dialogue j)"
  using evolves_reflp[of i] by (auto simp: keeps_def get_dialogue_iff reflp_def)

lemma keeps_lookup_memory: "keeps (evolves i) (lookup_memory j)"
  using evolves_reflp[of i] by (auto simp: keeps_def reflp_def dest!: lookup_memory_state)

lemma keeps_count: "keeps (evolves i) (modify (\<lambda>s. s\<lparr>message_count := message_count s + 1\<rparr>))"
  by (auto simp: keeps_def modify_iff evolves_def buffers_def data_evolves_refl)

lemma set_last_messages_data:
  assumes "i < length (sessions (dataset s))" and "sessions (dataset s) ! i \<noteq> []"
  shows "sessions (dataset (set_last_messages i ms s)) ! i =
           butlast (sessions (dataset s) ! i) @ [(last (sessions (dataset s) ! i))\<lparr>messages := ms\<rparr>]"
    and "k \<noteq> i \<Longrightarrow> sessions (dataset (set_last_messages i ms s)) ! k = sessions (dataset s) ! k"
    and "length (sessions (dataset (set_last_messages i ms s))) = length (sessions (dataset s))"
    and "memory (dataset (set_last_messages i ms s)) = memory (dataset s)"
  using assms by (simp_all add: set_last_messages_def Let_def)

lemma set_last_messages_evolves:
  assumes "i < length (sessions (dataset s))" and "sessions (dataset s) ! i \<noteq> []"
    and "prefix ms (messages (last (sessions (dataset s) ! i)))"
  shows "evolves i s (set_last_messages i ms s)"
proof -
  have "data_evolves i (dataset s) (dataset (set_last_messages i ms s))"
    unfolding data_evolves_def using assms
    by (simp add: set_last_messages_data)
  moreover have "buffers (set_last_messages i ms s) = buffers s"
    and "n_samples (set_last_messages i ms s) = n_samples s"
    and "is_calculated (set_last_messages i ms s) = is_calculated s"
    and "message_count (set_last_messages i ms s) = message_count s"
    and "pairwise_data (set_last_messages i ms s) = pairwise_data s"
    by (simp_all add: set_last_messages_def Let_def buffers_def)
  ultimately show ?thesis
    by (simp add: evolves_def list_all2_prefix_refl)
qed

lemma pop_message_Inr:
  assumes "pop_message i s = (Inr q, s')"
  shows "i < length (sessions (dataset s)) \<and> sessions (dataset s) ! i \<noteq> [] \<and>
     messages (last (sessions (dataset s) ! i)) \<noteq> [] \<and>
     q = last (messages (last (sessions (dataset s) ! i))) \<and>
     s' = set_last_messages i (butlast (messages (last (sessions (dataset s) ! i)))) s"
  using assms unfolding pop_message_def
  by (auto simp: seq_Inr_iff get_dialogue_iff modify_iff ret_iff raise_iff split: if_splits)

lemma pop_message_Inl:
  assumes "pop_message i s = (Inl e, s')"
  shows "e = IndexError \<and> s' = s \<and>
     (i < length (sessions (dataset s)) \<longrightarrow> sessions (dataset s) ! i \<noteq> [] \<longrightarrow>
        messages (last (sessions (dataset s) ! i)) = [])"
  using assms unfolding pop_message_def
  by (auto simp: seq_Inl_iff get_dialogue_iff modify_iff ret_iff raise_iff split: if_splits)

lemma keeps_pop_message: "keeps (evolves i) (pop_message i)"
  unfolding keeps_def
proof (intro allI impI)
  fix s r s'
  assume *: "pop_message i s = (r, s')"
  show "evolves i s s'"
  proof (cases r)
    case (Inl e)
    with * have "s' = s" by (auto dest: pop_message_Inl)
    then show ?thesis using evolves_reflp[of i] by (auto simp: reflp_def)
  next
    case (Inr q)
    with * show ?thesis
      by (auto dest!: pop_message_Inr intro!: set_last_messages_evolves simp: prefix_def)
        (metis append_butlast_last_id)
  qed
qed

lemma prefix_snoc: "prefix xs (xs @ [x])"
  by simp

lemma keeps_update_semantic_scores: "keeps (evolves i) (update_semantic_scores env a b c)"
  unfolding keeps_def
proof (intro allI impI)
  fix s r s'
  assume "update_semantic_scores env a b c s = (r, s')"
  from update_semantic_scores_any[OF this] show "evolves i s s'"
    by (auto simp: evolves_def kept_def buffers_def data_evolves_refl append_semantic_def)
qed

lemma keeps_update_llm_single_scores: "keeps (evolves i) (update_llm_single_scores env a b c d)"
  unfolding keeps_def
proof (intro allI impI)
  fix s r s'
  assume "update_llm_single_scores env a b c d s = (r, s')"
  from update_llm_single_scores_any[OF this] show "evolves i s s'"
    by (auto simp: evolves_def kept_def buffers_def data_evolves_refl append_llm_def)
qed

lemma on_pairwise_update_wf:
  assumes "on_pairwise (update_pairwise_counts score f) s = (r, s')" and "wf_pairwise (pairwise_data s)"
  shows "r = Inr () \<and> wf_pairwise (pairwise_data s') \<and>
     get_total_count (pairwise_data s') = get_total_count (pairwise_data s) + 1"
  using assms update_pairwise_counts_sums[OF assms(2), of score f]
  by (auto simp: on_pairwise_iff get_total_count_def)

lemma keeps_update_llm_pairwise_scores:
  "keeps (evolves i) (update_llm_pairwise_scores env a b c d)"
  unfolding keeps_def
proof (intro allI impI)
  fix s r s'
  assume *: "update_llm_pairwise_scores env a b c d s = (r, s')"
  have "wf_pairwise (pairwise_data s') " if "wf_pairwise (pairwise_data s)"
    using * that unfolding update_llm_pairwise_scores_def
    by (cases r)
      (auto simp: seq_Inr_iff seq_Inl_iff call_iff call_total_iff split: if_splits
        dest!: on_pairwise_update_wf)
  with update_llm_pairwise_scores_any[OF *] show "evolves i s s'"
    by (auto simp: evolves_def kept_def buffers_def data_evolves_refl list_all2_prefix_refl)
qed

lemma keeps_turn: "keeps (evolves i) (turn env i ideal)"
  unfolding turn_def
  by (intro keeps_seq evolves_transp keeps_count keeps_pop_message keeps_get_dialogue keeps_call
      keeps_update_semantic_scores keeps_reads evolves_reflp keeps_lookup_memory
      keeps_update_llm_single_scores keeps_update_llm_pairwise_scores)


lemma turn_Inr:
  assumes "turn env i ideal s = (Inr u, s')"
  shows "i < length (sessions (dataset s))"
    and "sessions (dataset s) ! i \<noteq> []"
    and "messages (last (sessions (dataset s) ! i)) \<noteq> []"
    and "dataset s' =
       dataset (set_last_messages i (butlast (messages (last (sessions (dataset s) ! i)))) s)"
    and "message_count s' = message_count s + 1"
    and "map length (buffers s') = map Suc (map length (buffers s))"
    and "wf_pairwise (pairwise_data s) \<Longrightarrow>
       get_total_count (pairwise_data s') = get_total_count (pairwise_data s) + 1"
proof -
  from assms obtain q s2 d s3 rr s4 br s5 s6 s7 mem s8 where
    pop: "pop_message i (s\<lparr>message_count := message_count s + 1\<rparr>) = (Inr q, s2)"
    and gd: "get_dialogue i s2 = (Inr d, s3)"
    and c1: "call (recsum_process_dialogue env d (message q)) s3 = (Inr rr, s4)"
    and c2: "call (baseline_process_dialogue env d (message q)) s4 = (Inr br, s5)"
    and sem: "update_semantic_scores env rr br (message ideal) s5 = (Inr (), s6)"
    and mem: "lookup_memory i s6 = (Inr mem, s7)"
    and single: "update_llm_single_scores env rr br
        (str_session env (last (sessions (dataset s6) ! i))) mem s7 = (Inr (), s8)"
    and pair: "update_llm_pairwise_scores env
        (str_session env (last (sessions (dataset s6) ! i))) mem rr br s8 = (Inr u, s')"
    unfolding turn_def by (auto simp: seq_Inr_iff modify_iff reads_iff)
  let ?s1 = "s\<lparr>message_count := message_count s + 1\<rparr>"
  let ?ms = "messages (last (sessions (dataset s) ! i))"
  from pop_message_Inr[OF pop]
  have p: "i < length (sessions (dataset s))" "sessions (dataset s) ! i \<noteq> []" "?ms \<noteq> []"
    "s2 = set_last_messages i (butlast ?ms) ?s1"
    by simp_all
  show "i < length (sessions (dataset s))" "sessions (dataset s) ! i \<noteq> []" "?ms \<noteq> []"
    by fact+
  have s3: "s3 = s2" using gd by (simp add: get_dialogue_iff)
  have s7: "s7 = s6" using mem by (rule lookup_memory_state)
  from c1 c2 obtain w4 w5 where s4: "s4 = s3\<lparr>world := w4\<rparr>" and s5: "s5 = s4\<lparr>world := w5\<rparr>"
    by (auto simp: call_iff)
  note A = update_semantic_scores_any[OF sem] update_semantic_scores_Inr[OF sem]
    update_llm_single_scores_any[OF single] update_llm_single_scores_Inr[OF single]
    update_llm_pairwise_scores_any[OF pair]
  have s2_fields: "dataset s5 = dataset s2" "message_count s5 = message_count s2"
    "buffers s5 = buffers s2" "pairwise_data s5 = pairwise_data s2"
    by (simp_all add: s3 s4 s5 buffers_def)
  have s2_s: "dataset s2 = dataset (set_last_messages i (butlast ?ms) s)"
    "message_count s2 = message_count s + 1" "buffers s2 = buffers s"
    "pairwise_data s2 = pairwise_data s"
    by (simp_all add: p(4) set_last_messages_def Let_def buffers_def)
  show "dataset s' = dataset (set_last_messages i (butlast ?ms) s)"
    using A s2_fields s2_s by (simp add: kept_def s7)
  show "message_count s' = message_count s + 1"
    using A s2_fields s2_s by (simp add: kept_def s7)
  have "map length (buffers s') = map Suc (map length (buffers s5))"
    using A by (auto simp: s7 buffers_def append_semantic_def append_llm_def)
  then show "map length (buffers s') = map Suc (map length (buffers s))"
    by (simp add: s2_fields s2_s)
  show "get_total_count (pairwise_data s') = get_total_count (pairwise_data s) + 1"
    if wf: "wf_pairwise (pairwise_data s)"
  proof -
    have "pairwise_data s8 = pairwise_data s" using A s2_fields s2_s by (simp add: s7)
    with wf have wf8: "wf_pairwise (pairwise_data s8)" by simp
    have "get_total_count (pairwise_data s') = get_total_count (pairwise_data s8) + 1"
      using pair wf8 unfolding update_llm_pairwise_scores_def
      by (auto simp: seq_Inr_iff call_iff call_total_iff split: if_splits
          dest!: on_pairwise_update_wf)
    then show ?thesis by (simp add: \<open>pairwise_data s8 = pairwise_data s\<close>)
  qed
qed

text \<open>
  The \<open>while\<close> loop of \<open>_process_dialogue\<close>. Its condition reads \<open>dialogue[-1].messages\<close>
  anew before every turn. The loop ends because every completed turn removes a message.
\<close>

function replay :: "'w collaborators \<Rightarrow> nat \<Rightarrow> Message \<Rightarrow> ('w CalculateMCPMetrics, unit) prog" where
  "replay env i ideal_response s =
     (case get_dialogue i s of
        (Inl e, s') \<Rightarrow> (Inl e, s')
      | (Inr dialogue, s') \<Rightarrow>
          if dialogue = [] then (Inl IndexError, s')
          else if messages (last dialogue) = [] then (Inr (), s')
          else (case turn env i ideal_response s' of
                  (Inl e, s'') \<Rightarrow> (Inl e, s'')
                | (Inr _, s'') \<Rightarrow> replay env i ideal_response s''))"
  by pat_completeness auto
termination
proof (relation "measure (\<lambda>(env, i, ideal, s). length (messages (last (sessions (dataset s) ! i))))")
  show "wf (measure (\<lambda>(env, i, ideal, s). length (messages (last (sessions (dataset s) ! i)))))"
    by simp
next
  fix env :: "'w collaborators" and i ideal_response and s :: "'w CalculateMCPMetrics"
    and x r s' d x3 u s''
  assume a: "(r, s') = get_dialogue i s" "r = Inr d" "d \<noteq> []" "messages (last d) \<noteq> []"
    "(x3, s'') = turn env i ideal_response s'" "x3 = Inr u"
  from a(1,2) have eq: "s' = s" "i < length (sessions (dataset s))" "d = sessions (dataset s) ! i"
    using get_dialogue_iff[of i s r s'] by (auto split: if_splits)
  from a(5,6) have t: "turn env i ideal_response s = (Inr u, s'')" by (simp add: eq)
  have "messages (last (sessions (dataset s'') ! i)) = butlast (messages (last d))"
    using turn_Inr(4)[OF t] a(3) eq by (simp add: set_last_messages_data)
  then show "((env, i, ideal_response, s''), (env, i, ideal_response, s))
      \<in> measure (\<lambda>(env, i, ideal, s). length (messages (last (sessions (dataset s) ! i))))"
    using a(4) eq by simp
qed

declare replay.simps [simp del]

subsection \<open>The orchestrator's methods\<close>

text \<open>\<open>_process_dialogue\<close>: the final message is removed first and kept as the ideal response.\<close>

definition process_dialogue :: "'w collaborators \<Rightarrow> nat \<Rightarrow> ('w CalculateMCPMetrics, unit) prog" where
  "process_dialogue env i = seq (pop_message i) (\<lambda>ideal_response. replay env i ideal_response)"

text \<open>
  \<open>calculate\<close> walks through a copy of the list of dialogues taken at its start, by
  position; an exception of \<open>_process_dialogue\<close> leaves the loop and the method, and the
  flag is set only after the loop. The progress line printed for each dialogue is not
  modelled.
\<close>

definition calculate :: "'w collaborators \<Rightarrow> ('w CalculateMCPMetrics, unit) prog" where
  "calculate env =
     seq (reads (\<lambda>s. sessions (dataset s))) (\<lambda>dialogues.
     seq (for_each [0..<length dialogues] (process_dialogue env)) (\<lambda>_.
     modify (\<lambda>s. s\<lparr>is_calculated := True\<rparr>)))"


text \<open>
  \<open>results\<close>: the property runs \<open>calculate\<close> when the flag is not set, then builds a new
  report from the buffers; the timestamp is read from the clock at that moment and
  \<open>pairwise_results\<close> is the tally object itself. The metadata dictionary has the four
  keys of the record below.
\<close>

record Metadata =
  timestamp :: string
  md_n_samples :: int
  md_message_count :: int
  version :: string

record SystemResults =
  semantic_precision :: MetricStats
  semantic_recall :: MetricStats
  semantic_f1 :: MetricStats
  llm_faithfulness :: MetricStats
  llm_informativeness :: MetricStats
  llm_coherency :: MetricStats

record MCPResults =
  metadata :: Metadata
  recsum_results :: SystemResults
  baseline_results :: SystemResults
  pairwise_results :: PairwiseResults

definition results :: "'w collaborators \<Rightarrow> ('w CalculateMCPMetrics, MCPResults) prog" where
  "results env =
     seq (\<lambda>s. if \<not> is_calculated s then calculate env s else ret () s) (\<lambda>_.
     seq (call_total (now_isoformat env)) (\<lambda>now.
     reads (\<lambda>s.
       \<lparr>metadata =
          \<lparr>timestamp = now, md_n_samples = n_samples s,
           md_message_count = message_count s, version = ''1.0''\<rparr>,
        recsum_results =
          \<lparr>semantic_precision = from_values (precision (recsum_semantic_data s)),
           semantic_recall = from_values (recall (recsum_semantic_data s)),
           semantic_f1 = from_values (f1 (recsum_semantic_data s)),
           llm_faithfulness = from_values (faithfulness (recsum_llm_data s)),
           llm_informativeness = from_values (informativeness (recsum_llm_data s)),
           llm_coherency = from_values (coherency (recsum_llm_data s))\<rparr>,
        baseline_results =
          \<lparr>semantic_precision = from_values (precision (baseline_semantic_data s)),
           semantic_recall = from_values (recall (baseline_semantic_data s)),
           semantic_f1 = from_values (f1 (baseline_semantic_data s)),
           llm_faithfulness = from_values (faithfulness (baseline_llm_data s)),
           llm_informativeness = from_values (informativeness (baseline_llm_data s)),
           llm_coherency = from_values (coherency (baseline_llm_data s))\<rparr>,
        pairwise_results = pairwise_data s\<rparr>)))"

subsection \<open>Properties of the replay of one dialogue\<close>

lemma keeps_replay: "keeps (evolves i) (replay env i ideal)"
  unfolding keeps_def
proof (intro allI impI)
  fix s :: "'a CalculateMCPMetrics" and r s'
  assume "replay env i ideal s = (r, s')"
  then show "evolves i s s'"
  proof (induction env i ideal s rule: replay.induct)
    case (1 env i ideal s)
    note refl = evolves_reflp[of i, unfolded reflp_def, rule_format]
    show ?case
    proof (cases "i < length (sessions (dataset s))")
      case False
      with "1.prems" show ?thesis
        by (simp add: replay.simps[of env i ideal s] get_dialogue_def refl)
    next
      case True
      let ?d = "sessions (dataset s) ! i"
      have gd: "get_dialogue i s = (Inr ?d, s)" using True by (simp add: get_dialogue_def)
      show ?thesis
      proof (cases "?d = [] \<or> messages (last ?d) = []")
        case True
        with "1.prems" gd show ?thesis
          by (auto simp: replay.simps[of env i ideal s] refl split: if_splits)
      next
        case False
        then have ne: "?d \<noteq> []" "messages (last ?d) \<noteq> []" by simp_all
        obtain rt st where t: "turn env i ideal s = (rt, st)" by (cases "turn env i ideal s")
        have e1: "evolves i s st" using keeps_turn t by (rule keepsD)
        show ?thesis
        proof (cases rt)
          case (Inl e)
          with "1.prems" gd ne t have "s' = st" by (simp add: replay.simps[of env i ideal s])
          with e1 show ?thesis by simp
        next
          case (Inr u)
          with "1.prems" gd ne t have "replay env i ideal st = (r, s')"
            by (simp add: replay.simps[of env i ideal s])
          with t Inr have "evolves i st s'"
            by (intro "1.IH"[OF gd[symmetric] HOL.refl ne _ HOL.refl]) simp_all
          with e1 show ?thesis using evolves_transp[of i] by (auto dest: transpD)
        qed
      qed
    qed
  qed
qed


lemma replay_stop:
  assumes "\<not> (i < length (sessions (dataset s)) \<and> sessions (dataset s) ! i \<noteq> [] \<and>
     messages (last (sessions (dataset s) ! i)) \<noteq> [])"
  shows "replay env i ideal s =
     (if i < length (sessions (dataset s)) \<and> sessions (dataset s) ! i \<noteq> []
      then Inr () else Inl IndexError, s)"
  using assms by (auto simp: replay.simps[of env i ideal s] get_dialogue_def)

lemma replay_step:
  assumes "i < length (sessions (dataset s))" and "sessions (dataset s) ! i \<noteq> []"
    and "messages (last (sessions (dataset s) ! i)) \<noteq> []"
  shows "replay env i ideal s =
     (case turn env i ideal s of
        (Inl e, s'') \<Rightarrow> (Inl e, s'')
      | (Inr u, s'') \<Rightarrow> replay env i ideal s'')"
  using assms by (simp add: replay.simps[of env i ideal s] get_dialogue_def)

lemma turn_Inr_messages:
  assumes "turn env i ideal s = (Inr u, s')"
  shows "i < length (sessions (dataset s'))" and "sessions (dataset s') ! i \<noteq> []"
    and "messages (last (sessions (dataset s') ! i)) =
       butlast (messages (last (sessions (dataset s) ! i)))"
  using turn_Inr(1,2)[OF assms] unfolding turn_Inr(4)[OF assms]
  by (simp_all add: set_last_messages_data)

lemma replay_Inr:
  assumes "replay env i ideal s = (Inr u, s')"
  shows "i < length (sessions (dataset s)) \<and> sessions (dataset s) ! i \<noteq> [] \<and>
     messages (last (sessions (dataset s') ! i)) = [] \<and>
     message_count s' = message_count s + int (length (messages (last (sessions (dataset s) ! i)))) \<and>
     map length (buffers s') =
       map (\<lambda>n. n + length (messages (last (sessions (dataset s) ! i)))) (map length (buffers s)) \<and>
     (wf_pairwise (pairwise_data s) \<longrightarrow>
        get_total_count (pairwise_data s') =
          get_total_count (pairwise_data s) + int (length (messages (last (sessions (dataset s) ! i)))))"
  using assms
proof (induction "length (messages (last (sessions (dataset s) ! i)))" arbitrary: s)
  case 0
  then have stop: "\<not> (i < length (sessions (dataset s)) \<and> sessions (dataset s) ! i \<noteq> [] \<and>
     messages (last (sessions (dataset s) ! i)) \<noteq> [])" by simp
  from "0.prems" have "i < length (sessions (dataset s)) \<and> sessions (dataset s) ! i \<noteq> []" "s' = s"
    unfolding replay_stop[OF stop] by (auto split: if_splits)
  with 0 show ?case by simp
next
  case (Suc n)
  let ?ms = "messages (last (sessions (dataset s) ! i))"
  have ms: "?ms \<noteq> []" using Suc(2) by auto
  show ?case
  proof (cases "i < length (sessions (dataset s)) \<and> sessions (dataset s) ! i \<noteq> []")
    case False
    then have "\<not> (i < length (sessions (dataset s)) \<and> sessions (dataset s) ! i \<noteq> [] \<and>
       messages (last (sessions (dataset s) ! i)) \<noteq> [])" by simp
    from Suc.prems[unfolded replay_stop[OF this]] False show ?thesis by (simp split: if_splits)
  next
    case True
    then have step: "replay env i ideal s =
      (case turn env i ideal s of (Inl e, s'') \<Rightarrow> (Inl e, s'') | (Inr u, s'') \<Rightarrow> replay env i ideal s'')"
      using ms by (intro replay_step) simp_all
    from Suc.prems obtain u1 s1 where t: "turn env i ideal s = (Inr u1, s1)"
      and r: "replay env i ideal s1 = (Inr u, s')"
      unfolding step by (auto split: prod.splits sum.splits)
    have len: "n = length (messages (last (sessions (dataset s1) ! i)))"
      using Suc(2) by (simp add: turn_Inr_messages(3)[OF t])
    note IH = Suc(1)[OF len r]
    have wf1: "wf_pairwise (pairwise_data s1)" if "wf_pairwise (pairwise_data s)"
      using keepsD[OF keeps_turn t] that by (simp add: evolves_def)
    have l: "length ?ms = Suc n" using Suc(2) by simp
    show ?thesis
      using IH True turn_Inr(5,6)[OF t] turn_Inr(7)[OF t] wf1
      by (auto simp: len[symmetric] l)
  qed
qed


lemma keeps_process_dialogue: "keeps (evolves i) (process_dialogue env i)"
  unfolding process_dialogue_def
  by (intro keeps_seq evolves_transp keeps_pop_message keeps_replay)

lemma set_last_messages_fields:
  "buffers (set_last_messages i ms s) = buffers s"
  "message_count (set_last_messages i ms s) = message_count s"
  "pairwise_data (set_last_messages i ms s) = pairwise_data s"
  "n_samples (set_last_messages i ms s) = n_samples s"
  "is_calculated (set_last_messages i ms s) = is_calculated s"
  "world (set_last_messages i ms s) = world s"
  by (simp_all add: set_last_messages_def Let_def buffers_def)

lemma set_last_messages_last:
  assumes "i < length (sessions (dataset s))" and "sessions (dataset s) ! i \<noteq> []"
  shows "messages (last (sessions (dataset (set_last_messages i ms s)) ! i)) = ms"
    and "sessions (dataset (set_last_messages i ms s)) ! i \<noteq> []"
    and "i < length (sessions (dataset (set_last_messages i ms s)))"
  using assms by (simp_all add: set_last_messages_data)

lemma process_dialogue_Inr:
  assumes "process_dialogue env i s = (Inr u, s')"
  shows "i < length (sessions (dataset s)) \<and> sessions (dataset s) ! i \<noteq> [] \<and>
     messages (last (sessions (dataset s) ! i)) \<noteq> [] \<and>
     messages (last (sessions (dataset s') ! i)) = [] \<and>
     message_count s' =
       message_count s + int (length (messages (last (sessions (dataset s) ! i)))) - 1 \<and>
     map length (buffers s') =
       map (\<lambda>n. n + (length (messages (last (sessions (dataset s) ! i))) - 1))
         (map length (buffers s)) \<and>
     (wf_pairwise (pairwise_data s) \<longrightarrow>
        get_total_count (pairwise_data s') =
          get_total_count (pairwise_data s)
            + int (length (messages (last (sessions (dataset s) ! i)))) - 1)"
proof -
  let ?ms = "messages (last (sessions (dataset s) ! i))"
  from assms obtain q s1 where pop: "pop_message i s = (Inr q, s1)"
    and r: "replay env i q s1 = (Inr u, s')"
    unfolding process_dialogue_def by (auto simp: seq_Inr_iff)
  from pop_message_Inr[OF pop]
  have p: "i < length (sessions (dataset s))" "sessions (dataset s) ! i \<noteq> []" "?ms \<noteq> []"
    "s1 = set_last_messages i (butlast ?ms) s"
    by simp_all
  have m1: "messages (last (sessions (dataset s1) ! i)) = butlast ?ms"
    unfolding p(4) using p(1,2) by (rule set_last_messages_last)
  have l: "int (length ?ms - Suc 0) = int (length ?ms) - 1"
    using p(3) by (cases ?ms) simp_all
  from replay_Inr[OF r] p show ?thesis
    unfolding m1 by (simp add: p(4) set_last_messages_fields l)
qed

lemma process_dialogue_no_ideal:
  assumes "i < length (sessions (dataset s)) \<longrightarrow> sessions (dataset s) ! i \<noteq> [] \<longrightarrow>
     messages (last (sessions (dataset s) ! i)) = []"
  shows "process_dialogue env i s = (Inl IndexError, s)"
  using assms unfolding process_dialogue_def pop_message_def
  by (auto simp: seq_def get_dialogue_def raise_def)

lemma process_dialogue_single:
  assumes "i < length (sessions (dataset s))" and "sessions (dataset s) ! i \<noteq> []"
    and "length (messages (last (sessions (dataset s) ! i))) = 1"
  shows "process_dialogue env i s = (Inr (), set_last_messages i [] s)"
proof -
  let ?ms = "messages (last (sessions (dataset s) ! i))"
  from assms(3) have ms: "?ms \<noteq> []" "butlast ?ms = []"
    by (cases ?ms; simp)+
  have pop: "pop_message i s = (Inr (last ?ms), set_last_messages i [] s)"
    using assms(1,2) ms unfolding pop_message_def
    by (simp add: seq_def get_dialogue_def modify_def ret_def)
  have "replay env i (last ?ms) (set_last_messages i [] s) = (Inr (), set_last_messages i [] s)"
    using set_last_messages_last[OF assms(1,2), of "[]"]
    by (subst replay_stop) simp_all
  with pop show ?thesis by (simp add: process_dialogue_def seq_def)
qed


text \<open>
  Collaborators that never raise, and a state in which the memory of dialogue \<open>i\<close> can be
  read and the tallies have their keys: under these a turn cannot fail.
\<close>

definition reliable :: "'w collaborators \<Rightarrow> bool" where
  "reliable env \<longleftrightarrow>
     (\<forall>d q w. \<not> isl (fst (recsum_process_dialogue env d q w))) \<and>
     (\<forall>d q w. \<not> isl (fst (baseline_process_dialogue env d q w))) \<and>
     (\<forall>a b w. \<not> isl (fst (compute_similarity env a b w))) \<and>
     (\<forall>c m r w. \<not> isl (fst (evaluate_single env c m r w))) \<and>
     (\<forall>c m a b w. \<not> isl (fst (evaluate_pairwise env c m a b w)))"

lemma call_reliable:
  assumes "\<not> isl (fst (f (world s)))"
  obtains a s' where "call f s = (Inr a, s')"
proof -
  obtain r w' where f: "f (world s) = (r, w')" by (cases "f (world s)")
  with assms obtain a where "r = Inr a" by (cases r) auto
  with f have "call f s = (Inr a, s\<lparr>world := w'\<rparr>)" by (simp add: call_def)
  then show ?thesis by (rule that)
qed

lemma update_semantic_scores_reliable:
  assumes "reliable env"
  obtains s' where "update_semantic_scores env a b c s = (Inr (), s')"
proof -
  from assms have r: "\<And>a b w. \<not> isl (fst (compute_similarity env a b w))"
    by (simp add: reliable_def)
  obtain x s1 where 1: "call (compute_similarity env a c) s = (Inr x, s1)"
    using r by (rule call_reliable)
  obtain s2 where 2: "modify (\<lambda>s. s\<lparr>recsum_semantic_data :=
      append_semantic x (recsum_semantic_data s)\<rparr>) s1 = (Inr (), s2)"
    by (simp add: modify_def)
  obtain y s3 where 3: "call (compute_similarity env b c) s2 = (Inr y, s3)"
    using r by (rule call_reliable)
  have "\<exists>s'. update_semantic_scores env a b c s = (Inr (), s')"
    unfolding update_semantic_scores_def
    by (simp add: seq_def 1 2 3) (simp add: modify_def)
  then show ?thesis using that by blast
qed

lemma update_llm_single_scores_reliable:
  assumes "reliable env"
  obtains s' where "update_llm_single_scores env a b c d s = (Inr (), s')"
proof -
  from assms have r: "\<And>c m r w. \<not> isl (fst (evaluate_single env c m r w))"
    by (simp add: reliable_def)
  obtain x s1 where 1: "call (evaluate_single env c d a) s = (Inr x, s1)"
    using r by (rule call_reliable)
  obtain s2 where 2: "modify (\<lambda>s. s\<lparr>recsum_llm_data :=
      append_llm x (recsum_llm_data s)\<rparr>) s1 = (Inr (), s2)"
    by (simp add: modify_def)
  obtain y s3 where 3: "call (evaluate_single env c d b) s2 = (Inr y, s3)"
    using r by (rule call_reliable)
  have "\<exists>s'. update_llm_single_scores env a b c d s = (Inr (), s')"
    unfolding update_llm_single_scores_def
    by (simp add: seq_def 1 2 3) (simp add: modify_def)
  then show ?thesis using that by blast
qed

lemma on_pairwise_reliable:
  assumes "wf_pairwise (pairwise_data s)"
  obtains s' where "on_pairwise (update_pairwise_counts score f) s = (Inr (), s')"
  using update_pairwise_counts_sums[OF assms, of score f]
  by (auto simp: on_pairwise_def)

lemma update_llm_pairwise_scores_reliable:
  assumes "reliable env" and "wf_pairwise (pairwise_data s)"
  obtains s' where "update_llm_pairwise_scores env a b c d s = (Inr (), s')"
proof -
  from assms have r: "\<And>c m a b w. \<not> isl (fst (evaluate_pairwise env c m a b w))"
    by (simp add: reliable_def)
  obtain x s1 where 1: "call_total (random_random env) s = (Inr x, s1)"
    by (cases "random_random env (world s)") (simp add: call_total_def)
  have wf1: "wf_pairwise (pairwise_data s1)"
    using keepsD[OF keeps_call_total 1, of 0] assms(2) by (simp add: evolves_def)
  show ?thesis
  proof (cases "x < 0.5")
    case True
    obtain sc s2 where 2: "call (evaluate_pairwise env a b c d) s1 = (Inr sc, s2)"
      using r by (rule call_reliable)
    have "wf_pairwise (pairwise_data s2)"
      using keepsD[OF keeps_call 2, of 0] wf1 by (simp add: evolves_def)
    then obtain s' where 3: "on_pairwise (update_pairwise_counts sc True) s2 = (Inr (), s')"
      by (rule on_pairwise_reliable)
    have "update_llm_pairwise_scores env a b c d s = (Inr (), s')"
      unfolding update_llm_pairwise_scores_def using True
      by (simp add: seq_def 1 2 3)
    then show ?thesis by (rule that)
  next
    case False
    obtain sc s2 where 2: "call (evaluate_pairwise env a b d c) s1 = (Inr sc, s2)"
      using r by (rule call_reliable)
    have "wf_pairwise (pairwise_data s2)"
      using keepsD[OF keeps_call 2, of 0] wf1 by (simp add: evolves_def)
    then obtain s' where 3: "on_pairwise (update_pairwise_counts sc False) s2 = (Inr (), s')"
      by (rule on_pairwise_reliable)
    have "update_llm_pairwise_scores env a b c d s = (Inr (), s')"
      unfolding update_llm_pairwise_scores_def using False
      by (simp add: seq_def 1 2 3)
    then show ?thesis by (rule that)
  qed
qed

definition replayable :: "nat \<Rightarrow> 'w CalculateMCPMetrics \<Rightarrow> bool" where
  "replayable i s \<longleftrightarrow>
     i < length (memory (dataset s)) \<and> memory (dataset s) ! i \<noteq> [] \<and>
     wf_pairwise (pairwise_data s)"

lemma replayable_evolves: "evolves j s s' \<Longrightarrow> replayable i s \<Longrightarrow> replayable i s'"
  by (auto simp: evolves_def data_evolves_def replayable_def)

lemma turn_reliable:
  assumes "reliable env" and "replayable i s"
    and "i < length (sessions (dataset s))" and "sessions (dataset s) ! i \<noteq> []"
    and "messages (last (sessions (dataset s) ! i)) \<noteq> []"
  obtains s' where "turn env i ideal s = (Inr (), s')"
proof -
  let ?ms = "messages (last (sessions (dataset s) ! i))"
  obtain s1 where 0: "modify (\<lambda>s. s\<lparr>message_count := message_count s + 1\<rparr>) s = (Inr (), s1)"
    by (simp add: modify_def)
  then have s1: "dataset s1 = dataset s" by (auto simp: modify_def)
  obtain q s2 where pop: "pop_message i s1 = (Inr q, s2)"
    using assms(3-5) unfolding pop_message_def
    by (simp add: seq_def get_dialogue_def modify_def ret_def s1)
  have "i < length (sessions (dataset s2))"
    using keepsD[OF keeps_pop_message pop] assms(3) s1 by (simp add: evolves_def data_evolves_def)
  then obtain d where gd: "get_dialogue i s2 = (Inr d, s2)"
    by (simp add: get_dialogue_def)
  from assms(1) have r1: "\<And>d q w. \<not> isl (fst (recsum_process_dialogue env d q w))"
    and r2: "\<And>d q w. \<not> isl (fst (baseline_process_dialogue env d q w))"
    by (simp_all add: reliable_def)
  obtain rr s3 where c1: "call (recsum_process_dialogue env d (message q)) s2 = (Inr rr, s3)"
    using r1 by (rule call_reliable)
  obtain br s4 where c2: "call (baseline_process_dialogue env d (message q)) s3 = (Inr br, s4)"
    using r2 by (rule call_reliable)
  obtain s5 where sem: "update_semantic_scores env rr br (message ideal) s4 = (Inr (), s5)"
    using assms(1) by (rule update_semantic_scores_reliable)
  have e5: "evolves i s s5"
  proof -
    have "evolves i s s1" using keepsD[OF keeps_count 0] .
    moreover have "evolves i s1 s2" using keepsD[OF keeps_pop_message pop] .
    moreover have "evolves i s2 s3" using keepsD[OF keeps_call c1] .
    moreover have "evolves i s3 s4" using keepsD[OF keeps_call c2] .
    moreover have "evolves i s4 s5" using keepsD[OF keeps_update_semantic_scores sem] .
    ultimately show ?thesis using evolves_transp[of i] by (blast dest: transpD)
  qed
  then have rp5: "replayable i s5" using assms(2) by (rule replayable_evolves)
  obtain ctx where rd:
    "reads (\<lambda>s. str_session env (last (sessions (dataset s) ! i))) s5 = (Inr ctx, s5)"
    by (simp add: reads_def)
  obtain mv where mem: "lookup_memory i s5 = (Inr mv, s5)"
    using rp5 by (simp add: lookup_memory_def replayable_def)
  obtain s6 where single: "update_llm_single_scores env rr br ctx mv s5 = (Inr (), s6)"
    using assms(1) by (rule update_llm_single_scores_reliable)
  have "evolves i s5 s6" using keepsD[OF keeps_update_llm_single_scores single] .
  then have "replayable i s6" using rp5 by (rule replayable_evolves)
  then have "wf_pairwise (pairwise_data s6)" by (simp add: replayable_def)
  with assms(1) obtain s' where pair:
    "update_llm_pairwise_scores env ctx mv rr br s6 = (Inr (), s')"
    by (rule update_llm_pairwise_scores_reliable)
  have "turn env i ideal s = (Inr (), s')"
    unfolding turn_def
    by (simp add: seq_def 0 pop gd c1 c2 sem rd mem single pair)
  then show ?thesis by (rule that)
qed

lemma replay_reliable:
  assumes "reliable env" and "replayable i s"
    and "i < length (sessions (dataset s))" and "sessions (dataset s) ! i \<noteq> []"
  shows "\<exists>s'. replay env i ideal s = (Inr (), s')"
  using assms(2-4)
proof (induction "length (messages (last (sessions (dataset s) ! i)))" arbitrary: s)
  case 0
  then show ?case by (simp add: replay_stop)
next
  case (Suc n)
  let ?ms = "messages (last (sessions (dataset s) ! i))"
  have ms: "?ms \<noteq> []" using Suc(2) by auto
  obtain s1 where t: "turn env i ideal s = (Inr (), s1)"
    using assms(1) Suc.prems ms by (rule turn_reliable)
  have len: "n = length (messages (last (sessions (dataset s1) ! i)))"
    using Suc(2) by (simp add: turn_Inr_messages(3)[OF t])
  have "replayable i s1"
    using keepsD[OF keeps_turn t] Suc.prems(1) by (rule replayable_evolves)
  from Suc(1)[OF len this turn_Inr_messages(1,2)[OF t]]
  obtain s' where "replay env i ideal s1 = (Inr (), s')" ..
  then have "replay env i ideal s = (Inr (), s')"
    using Suc.prems ms by (simp add: replay_step t)
  then show ?case ..
qed

lemma process_dialogue_reliable:
  assumes "reliable env" and "replayable i s"
    and "i < length (sessions (dataset s))" and "sessions (dataset s) ! i \<noteq> []"
    and "messages (last (sessions (dataset s) ! i)) \<noteq> []"
  shows "\<exists>s'. process_dialogue env i s = (Inr (), s')"
proof -
  let ?ms = "messages (last (sessions (dataset s) ! i))"
  let ?s1 = "set_last_messages i (butlast ?ms) s"
  have pop: "pop_message i s = (Inr (last ?ms), ?s1)"
    using assms(3-5) unfolding pop_message_def
    by (simp add: seq_def get_dialogue_def modify_def ret_def)
  have "replayable i ?s1"
    using keepsD[OF keeps_pop_message pop] assms(2) by (rule replayable_evolves)
  from replay_reliable[OF assms(1) this set_last_messages_last(3,2)[OF assms(3,4)]]
  obtain s' where "replay env i (last ?ms) ?s1 = (Inr (), s')" ..
  then have "process_dialogue env i s = (Inr (), s')"
    by (simp add: process_dialogue_def seq_def pop)
  then show ?thesis ..
qed

subsection \<open>Properties of a run of \<open>calculate\<close>\<close>

text \<open>Over a whole run the replay of any dialogue may have taken place.\<close>

definition run_evolves :: "'w CalculateMCPMetrics \<Rightarrow> 'w CalculateMCPMetrics \<Rightarrow> bool" where
  "run_evolves s s' \<longleftrightarrow>
     n_samples s' = n_samples s \<and> is_calculated s' = is_calculated s \<and>
     message_count s \<le> message_count s' \<and>
     list_all2 prefix (buffers s) (buffers s') \<and>
     (wf_pairwise (pairwise_data s) \<longrightarrow> wf_pairwise (pairwise_data s')) \<and>
     memory (dataset s') = memory (dataset s) \<and>
     length (sessions (dataset s')) = length (sessions (dataset s)) \<and>
     (\<forall>k. length (sessions (dataset s') ! k) = length (sessions (dataset s) ! k) \<and>
          butlast (sessions (dataset s') ! k) = butlast (sessions (dataset s) ! k) \<and>
          prefix (messages (last (sessions (dataset s') ! k)))
            (messages (last (sessions (dataset s) ! k))))"

lemma evolves_run_evolves: "evolves i s s' \<Longrightarrow> run_evolves s s'"
  unfolding evolves_def data_evolves_def run_evolves_def
  by (auto; metis)

lemma run_evolves_reflp: "reflp run_evolves"
  by (auto simp: reflp_def run_evolves_def list_all2_prefix_refl)

lemma run_evolves_transp: "transp run_evolves"
  unfolding transp_def run_evolves_def
  by (auto intro: list_all2_prefix_trans prefix_order.trans)

lemma keeps_mono: "keeps R m \<Longrightarrow> (\<And>s s'. R s s' \<Longrightarrow> Q s s') \<Longrightarrow> keeps Q m"
  by (auto simp: keeps_def)

lemma keeps_run_process_dialogue: "keeps run_evolves (process_dialogue env i)"
  using keeps_process_dialogue by (rule keeps_mono) (rule evolves_run_evolves)

lemma keeps_run_for_each: "keeps run_evolves (for_each js (process_dialogue env))"
  by (intro keeps_for_each run_evolves_transp run_evolves_reflp keeps_run_process_dialogue)

lemma for_each_untouched:
  assumes "for_each js (process_dialogue env) s = (r, s')" and "k \<notin> set js"
  shows "sessions (dataset s') ! k = sessions (dataset s) ! k"
  using assms
proof (induction js arbitrary: s)
  case Nil
  then show ?case by (simp add: ret_def)
next
  case (Cons j js)
  obtain r1 s1 where p: "process_dialogue env j s = (r1, s1)"
    by (cases "process_dialogue env j s")
  have 1: "sessions (dataset s1) ! k = sessions (dataset s) ! k"
    using keepsD[OF keeps_process_dialogue p] Cons.prems(2)
    by (simp add: evolves_def data_evolves_def)
  show ?case
  proof (cases r1)
    case (Inl e)
    with Cons.prems(1) p have "s' = s1" by (simp add: seq_def)
    with 1 show ?thesis by simp
  next
    case (Inr u)
    with Cons.prems(1) p have "for_each js (process_dialogue env) s1 = (r, s')"
      by (simp add: seq_def)
    from Cons.IH[OF this] Cons.prems(2) 1 show ?thesis by simp
  qed
qed

lemma for_each_Inr:
  assumes "for_each js (process_dialogue env) s = (Inr u, s')" and "distinct js"
    and "j \<in> set js"
  shows "j < length (sessions (dataset s)) \<and> sessions (dataset s) ! j \<noteq> [] \<and>
     messages (last (sessions (dataset s) ! j)) \<noteq> [] \<and>
     messages (last (sessions (dataset s') ! j)) = []"
  using assms
proof (induction js arbitrary: s)
  case Nil
  then show ?case by simp
next
  case (Cons i js)
  from Cons.prems(1) obtain u1 s1 where p: "process_dialogue env i s = (Inr u1, s1)"
    and rest: "for_each js (process_dialogue env) s1 = (Inr u, s')"
    by (auto simp: seq_Inr_iff)
  note e = keepsD[OF keeps_process_dialogue p]
  show ?case
  proof (cases "j = i")
    case True
    have "i \<notin> set js" using Cons.prems(2) by simp
    from for_each_untouched[OF rest this] process_dialogue_Inr[OF p] True
    show ?thesis by simp
  next
    case False
    then have "j \<in> set js" using Cons.prems(3) by simp
    from Cons.IH[OF rest _ this] Cons.prems(2)
    have "j < length (sessions (dataset s1)) \<and> sessions (dataset s1) ! j \<noteq> [] \<and>
      messages (last (sessions (dataset s1) ! j)) \<noteq> [] \<and>
      messages (last (sessions (dataset s') ! j)) = []" by simp
    moreover have "sessions (dataset s1) ! j = sessions (dataset s) ! j"
      "length (sessions (dataset s1)) = length (sessions (dataset s))"
      using e False by (simp_all add: evolves_def data_evolves_def)
    ultimately show ?thesis by simp
  qed
qed

lemma for_each_Inl:
  assumes "for_each xs body s = (Inl e, s')"
  shows "\<exists>ys x zs s1. xs = ys @ x # zs \<and> for_each ys body s = (Inr (), s1) \<and>
     body x s1 = (Inl e, s')"
  using assms
proof (induction xs arbitrary: s)
  case Nil
  then show ?case by (simp add: ret_def)
next
  case (Cons x xs)
  show ?case
  proof (cases "body x s" rule: prod.exhaust)
    case (Pair r1 s1)
    show ?thesis
    proof (cases r1)
      case (Inl e1)
      with Cons.prems Pair have "body x s = (Inl e, s')" by (simp add: seq_def)
      then have "x # xs = [] @ x # xs \<and> for_each [] body s = (Inr (), s) \<and> body x s = (Inl e, s')"
        by (simp add: ret_def)
      then show ?thesis by blast
    next
      case (Inr u1)
      with Cons.prems Pair have "for_each xs body s1 = (Inl e, s')" by (simp add: seq_def)
      from Cons.IH[OF this] obtain ys y zs s2 where
        *: "xs = ys @ y # zs" "for_each ys body s1 = (Inr (), s2)" "body y s2 = (Inl e, s')"
        by blast
      have "for_each (x # ys) body s = (Inr (), s2)"
        using Pair Inr *(2) by (simp add: seq_def)
      with * have "x # xs = (x # ys) @ y # zs \<and> for_each (x # ys) body s = (Inr (), s2) \<and>
          body y s2 = (Inl e, s')" by simp
      then show ?thesis by blast
    qed
  qed
qed


lemma calculate_Inr:
  assumes "calculate env s = (Inr u, s')"
  obtains s1 where "for_each [0..<length (sessions (dataset s))] (process_dialogue env) s = (Inr (), s1)"
    and "s' = s1\<lparr>is_calculated := True\<rparr>"
  using assms unfolding calculate_def
  by (auto simp: seq_Inr_iff reads_iff modify_iff)

lemma calculate_Inl:
  assumes "calculate env s = (Inl e, s')"
  shows "for_each [0..<length (sessions (dataset s))] (process_dialogue env) s = (Inl e, s')"
  using assms unfolding calculate_def
  by (auto simp: seq_Inl_iff seq_Inr_iff reads_iff modify_iff)

lemma session_emptied:
  fixes d d' :: dialogue
  assumes "length d' = length d" and "butlast d' = butlast d" and "d \<noteq> []"
    and "messages (last d') = []"
  shows "d' = butlast d @ [(last d)\<lparr>messages := []\<rparr>]"
proof -
  from assms(1,3) have "d' \<noteq> []" by auto
  then have "d' = butlast d' @ [last d']" by simp
  moreover have "last d' = (last d)\<lparr>messages := []\<rparr>"
    using assms(4) by (cases "last d'"; cases "last d") simp
  ultimately show ?thesis using assms(2) by simp
qed

lemma keeps_run_calculate_loop:
  assumes "for_each js (process_dialogue env) s = (r, s')"
  shows "run_evolves s s'"
  using keeps_run_for_each assms by (rule keepsD)

text \<open>
  What a run of \<open>calculate\<close> does to the dataset, whatever its outcome: the memory, the
  number of dialogues, the length of every dialogue and all its elements but the last
  stay, and the last element's message list is an initial part of what it was; after a
  run that returns it is empty for every dialogue.
\<close>

lemma calculate_dataset_effect:
  assumes "calculate env s = (r, s')"
  shows "memory (dataset s') = memory (dataset s) \<and>
     length (sessions (dataset s')) = length (sessions (dataset s)) \<and>
     (\<forall>k. length (sessions (dataset s') ! k) = length (sessions (dataset s) ! k) \<and>
          butlast (sessions (dataset s') ! k) = butlast (sessions (dataset s) ! k) \<and>
          prefix (messages (last (sessions (dataset s') ! k)))
            (messages (last (sessions (dataset s) ! k)))) \<and>
     (r = Inr () \<longrightarrow>
        (\<forall>k<length (sessions (dataset s)).
           sessions (dataset s') ! k =
             butlast (sessions (dataset s) ! k) @ [(last (sessions (dataset s) ! k))\<lparr>messages := []\<rparr>]))"
proof -
  let ?n = "length (sessions (dataset s))"
  obtain r1 s1 where loop: "for_each [0..<?n] (process_dialogue env) s = (r1, s1)"
    by (cases "for_each [0..<?n] (process_dialogue env) s")
  have ds: "dataset s' = dataset s1"
  proof (cases r)
    case (Inl e)
    with assms loop show ?thesis by (auto dest: calculate_Inl)
  next
    case (Inr u)
    with assms loop show ?thesis by (auto elim!: calculate_Inr)
  qed
  from keeps_run_calculate_loop[OF loop] have run: "run_evolves s s1" .
  have "sessions (dataset s') ! k =
      butlast (sessions (dataset s) ! k) @ [(last (sessions (dataset s) ! k))\<lparr>messages := []\<rparr>]"
    if "r = Inr ()" and "k < ?n" for k
  proof -
    from assms that(1) loop have ok: "for_each [0..<?n] (process_dialogue env) s = (Inr (), s1)"
      by (auto elim!: calculate_Inr)
    from for_each_Inr[OF ok, of k] that(2)
    have "sessions (dataset s) ! k \<noteq> []" "messages (last (sessions (dataset s1) ! k)) = []"
      by simp_all
    with run show ?thesis
      unfolding ds by (intro session_emptied) (simp_all add: run_evolves_def)
  qed
  with run show ?thesis
    unfolding ds by (simp add: run_evolves_def)
qed

text \<open>
  A call of \<open>calculate\<close> on the state that a completed run left behind: every dialogue's
  last message list is empty by then, so the replay of the first dialogue raises at once
  and nothing is changed; with no dialogue at all the call returns.
\<close>

lemma calculate_again:
  assumes "calculate env s = (Inr u, s1)"
  shows "calculate env s1 =
     (if sessions (dataset s1) = [] then Inr () else Inl IndexError, s1)"
proof -
  let ?n = "length (sessions (dataset s))"
  from assms obtain s0 where loop: "for_each [0..<?n] (process_dialogue env) s = (Inr (), s0)"
    and s1: "s1 = s0\<lparr>is_calculated := True\<rparr>"
    by (rule calculate_Inr)
  from keeps_run_calculate_loop[OF loop] have run: "run_evolves s s0" .
  then have n: "length (sessions (dataset s1)) = ?n" by (simp add: s1 run_evolves_def)
  have flag: "s1\<lparr>is_calculated := True\<rparr> = s1" by (simp add: s1)
  show ?thesis
  proof (cases "?n = 0")
    case True
    with n show ?thesis
      by (simp add: calculate_def seq_def reads_def ret_def modify_def flag)
  next
    case False
    then have 0: "0 \<in> set [0..<?n]" by simp
    from for_each_Inr[OF loop _ 0]
    have "messages (last (sessions (dataset s1) ! 0)) = []" by (simp add: s1)
    then have "process_dialogue env 0 s1 = (Inl IndexError, s1)"
      by (intro process_dialogue_no_ideal) simp
    moreover have "[0..<?n] = 0 # [1..<?n]" using False by (simp add: upt_conv_Cons)
    moreover have "sessions (dataset s1) \<noteq> []" using False n by auto
    ultimately show ?thesis
      using n by (simp add: calculate_def seq_def reads_def)
  qed
qed

text \<open>
  Claim C10. \<open>_process_dialogue\<close> raises \<open>IndexError\<close>, leaving the state as it is, on a
  dialogue whose last element has no message; and \<open>calculate\<close> returns normally only if
  every dialogue of the dataset is non-empty and its last element holds at least one
  message.
\<close>

theorem calculate_needs_final_message:
  "(i < length (sessions (dataset s)) \<and> sessions (dataset s) ! i \<noteq> [] \<and>
      messages (last (sessions (dataset s) ! i)) = []
      \<longrightarrow> process_dialogue env i s = (Inl IndexError, s)) \<and>
   (calculate env s = (Inr u, s')
      \<longrightarrow> (\<forall>d\<in>set (sessions (dataset s)). d \<noteq> [] \<and> messages (last d) \<noteq> []))"
proof (intro conjI impI ballI)
  assume "i < length (sessions (dataset s)) \<and> sessions (dataset s) ! i \<noteq> [] \<and>
      messages (last (sessions (dataset s) ! i)) = []"
  then show "process_dialogue env i s = (Inl IndexError, s)"
    by (intro process_dialogue_no_ideal) simp
next
  fix d
  assume c: "calculate env s = (Inr u, s')" and d: "d \<in> set (sessions (dataset s))"
  let ?n = "length (sessions (dataset s))"
  from c obtain s0 where loop: "for_each [0..<?n] (process_dialogue env) s = (Inr (), s0)"
    by (rule calculate_Inr)
  from d obtain k where k: "k < ?n" "d = sessions (dataset s) ! k"
    by (auto simp: in_set_conv_nth)
  from for_each_Inr[OF loop, of k] k show "d \<noteq> []" "messages (last d) \<noteq> []"
    by simp_all
qed

subsection \<open>A concrete run\<close>

text \<open>
  Collaborators for concrete runs. The outside world is a counter of the calls made;
  \<open>stub\<close> never raises, and its clock and its random generator are functions of the
  counter. \<open>flaky\<close> is \<open>stub\<close> with a similarity scorer that raises from the tenth call
  on, which is in the second turn of a replay. The sample dataset has two dialogues: the
  first has an earlier session and a current one of three messages, the second a single
  session of two messages.
\<close>

definition stub :: "nat collaborators" where
  "stub =
     \<lparr>recsum_process_dialogue = (\<lambda>d q w. (Inr (''recsum: '' @ q), Suc w)),
      baseline_process_dialogue = (\<lambda>d q w. (Inr (''baseline: '' @ q), Suc w)),
      compute_similarity =
        (\<lambda>a b w. (Inr \<lparr>sim_precision = 1 / 2, sim_recall = 1 / 2, sim_f1 = 1 / 2\<rparr>, Suc w)),
      evaluate_single =
        (\<lambda>c m r w. (Inr \<lparr>faithfulness_score = 4, informativeness_score = 3,
                           coherency_score = 5\<rparr>, Suc w)),
      evaluate_pairwise =
        (\<lambda>c m a b w. (Inr \<lparr>cmp_faithfulness = RESPONSE_1_BETTER, cmp_informativeness = TIE,
                             cmp_coherency = RESPONSE_2_BETTER\<rparr>, Suc w)),
      random_random = (\<lambda>w. (if w mod 3 = 0 then 1 / 4 else 3 / 4, Suc w)),
      now_isoformat = (\<lambda>w. (replicate w CHR ''t'', Suc w)),
      str_session = (\<lambda>x. concat (map message (messages x)))\<rparr>"

definition flaky :: "nat collaborators" where
  "flaky = stub\<lparr>compute_similarity :=
     (\<lambda>a b w. if w < 10 then (Inr \<lparr>sim_precision = 1 / 2, sim_recall = 1 / 2, sim_f1 = 1 / 2\<rparr>, Suc w)
               else (Inl (CallFailed ''scorer''), w))\<rparr>"

definition sample_dataset :: MCPDataset where
  "sample_dataset =
     \<lparr>sessions =
        [[\<lparr>messages = [\<lparr>role = ''user'', message = ''old''\<rparr>]\<rparr>,
          \<lparr>messages = [\<lparr>role = ''user'', message = ''q1''\<rparr>,
                       \<lparr>role = ''assistant'', message = ''q2''\<rparr>,
                       \<lparr>role = ''user'', message = ''ideal''\<rparr>]\<rparr>],
         [\<lparr>messages = [\<lparr>role = ''user'', message = ''p''\<rparr>,
                       \<lparr>role = ''assistant'', message = ''best''\<rparr>]\<rparr>]],
      memory = [[''m0''], [''m1'']]\<rparr>"

definition sample :: "nat CalculateMCPMetrics" where
  "sample = new_CalculateMCPMetrics sample_dataset 2 0"


lemma flaky_run:
  "calculate flaky sample =
    (Inl (CallFailed ''scorer''),
     \<lparr>dataset =
        \<lparr>sessions =
           [[\<lparr>messages = [\<lparr>role = ''user'', message = ''old''\<rparr>]\<rparr>, \<lparr>messages = []\<rparr>],
            [\<lparr>messages = [\<lparr>role = ''user'', message = ''p''\<rparr>,
                          \<lparr>role = ''assistant'', message = ''best''\<rparr>]\<rparr>]],
         memory = [[''m0''], [''m1'']]\<rparr>,
      recsum_semantic_data = \<lparr>precision = [1 / 2], recall = [1 / 2], f1 = [1 / 2]\<rparr>,
      baseline_semantic_data = \<lparr>precision = [1 / 2], recall = [1 / 2], f1 = [1 / 2]\<rparr>,
      recsum_llm_data = \<lparr>faithfulness = [4], informativeness = [3], coherency = [5]\<rparr>,
      baseline_llm_data = \<lparr>faithfulness = [4], informativeness = [3], coherency = [5]\<rparr>,
      pairwise_data =
        \<lparr>pw_faithfulness = [(''recsum'', 1), (''baseline'', 0), (''draw'', 0)],
         pw_informativeness = [(''recsum'', 0), (''baseline'', 0), (''draw'', 1)],
         pw_coherency = [(''recsum'', 0), (''baseline'', 1), (''draw'', 0)]\<rparr>,
      message_count = 2, n_samples = 2, is_calculated = False, world = 10\<rparr>)"
  by code_simp


lemma sample_run:
  "calculate stub sample =
    (Inr (),
     \<lparr>dataset =
        \<lparr>sessions =
           [[\<lparr>messages = [\<lparr>role = ''user'', message = ''old''\<rparr>]\<rparr>, \<lparr>messages = []\<rparr>],
            [\<lparr>messages = []\<rparr>]],
         memory = [[''m0''], [''m1'']]\<rparr>,
      recsum_semantic_data =
        \<lparr>precision = [1 / 2, 1 / 2, 1 / 2], recall = [1 / 2, 1 / 2, 1 / 2],
         f1 = [1 / 2, 1 / 2, 1 / 2]\<rparr>,
      baseline_semantic_data =
        \<lparr>precision = [1 / 2, 1 / 2, 1 / 2], recall = [1 / 2, 1 / 2, 1 / 2],
         f1 = [1 / 2, 1 / 2, 1 / 2]\<rparr>,
      recsum_llm_data =
        \<lparr>faithfulness = [4, 4, 4], informativeness = [3, 3, 3], coherency = [5, 5, 5]\<rparr>,
      baseline_llm_data =
        \<lparr>faithfulness = [4, 4, 4], informativeness = [3, 3, 3], coherency = [5, 5, 5]\<rparr>,
      pairwise_data =
        \<lparr>pw_faithfulness = [(''recsum'', 1), (''baseline'', 2), (''draw'', 0)],
         pw_informativeness = [(''recsum'', 0), (''baseline'', 0), (''draw'', 3)],
         pw_coherency = [(''recsum'', 2), (''baseline'', 1), (''draw'', 0)]\<rparr>,
      message_count = 3, n_samples = 2, is_calculated = True, world = 24\<rparr>)"
  by code_simp

lemma reliable_stub: "reliable stub"
  by (simp add: reliable_def stub_def)

text \<open>
  Claim C5. For a dialogue whose last element holds \<open>k \<ge> 1\<close> messages, a replay that
  returns has processed exactly \<open>k - 1\<close> turns: the turn counter and every buffer have
  grown by \<open>k - 1\<close> and the message list is empty (the final message was removed first,
  as the ideal response, and each turn removed one more). With \<open>k = 1\<close> the replay returns
  without a turn and without an error. With collaborators that never raise, a readable
  memory entry and tallies holding their keys, the replay does return.
\<close>

theorem process_dialogue_turns:
  assumes "i < length (sessions (dataset s))" and "sessions (dataset s) ! i \<noteq> []"
    and "length (messages (last (sessions (dataset s) ! i))) = k" and "1 \<le> k"
  shows "(\<forall>u s'. process_dialogue env i s = (Inr u, s') \<longrightarrow>
            message_count s' = message_count s + int k - 1 \<and>
            map length (buffers s') = map (\<lambda>n. n + (k - 1)) (map length (buffers s)) \<and>
            messages (last (sessions (dataset s') ! i)) = []) \<and>
         (k = 1 \<longrightarrow>
            fst (process_dialogue env i s) = Inr () \<and>
            message_count (snd (process_dialogue env i s)) = message_count s \<and>
            buffers (snd (process_dialogue env i s)) = buffers s) \<and>
         (reliable env \<and> replayable i s \<longrightarrow> (\<exists>s'. process_dialogue env i s = (Inr (), s')))"
proof (intro conjI allI impI)
  fix u s'
  assume "process_dialogue env i s = (Inr u, s')"
  from process_dialogue_Inr[OF this] assms(3)
  show "message_count s' = message_count s + int k - 1"
    and "map length (buffers s') = map (\<lambda>n. n + (k - 1)) (map length (buffers s))"
    and "messages (last (sessions (dataset s') ! i)) = []"
    by simp_all
next
  assume "k = 1"
  with assms have "process_dialogue env i s = (Inr (), set_last_messages i [] s)"
    by (intro process_dialogue_single) simp_all
  then show "fst (process_dialogue env i s) = Inr ()"
    and "message_count (snd (process_dialogue env i s)) = message_count s"
    and "buffers (snd (process_dialogue env i s)) = buffers s"
    by (simp_all add: set_last_messages_fields)
next
  assume "reliable env \<and> replayable i s"
  moreover have "messages (last (sessions (dataset s) ! i)) \<noteq> []"
    using assms(3,4) by auto
  ultimately show "\<exists>s'. process_dialogue env i s = (Inr (), s')"
    using assms(1,2) by (intro process_dialogue_reliable) simp_all
qed

theorem process_dialogue_turns_witness:
  "fst (process_dialogue stub 0 sample) = Inr () \<and>
   message_count (snd (process_dialogue stub 0 sample)) = 2 \<and>
   map length (buffers (snd (process_dialogue stub 0 sample))) = replicate 12 2 \<and>
   messages (last (sessions (dataset (snd (process_dialogue stub 0 sample))) ! 0)) = []"
proof -
  have 1: "0 < length (sessions (dataset sample))"
    and 2: "sessions (dataset sample) ! 0 \<noteq> []"
    and 3: "length (messages (last (sessions (dataset sample) ! 0))) = 3"
    and 4: "1 \<le> (3::nat)"
    by (simp_all add: sample_def sample_dataset_def new_CalculateMCPMetrics_def)
  have r: "replayable 0 sample"
    by (simp add: replayable_def sample_def sample_dataset_def new_CalculateMCPMetrics_def
        wf_new_PairwiseResults)
  note t = process_dialogue_turns[OF 1 2 3 4, of stub]
  from t reliable_stub r obtain s' where s': "process_dialogue stub 0 sample = (Inr (), s')"
    by blast
  with t have "message_count s' = message_count sample + int 3 - 1"
    and "map length (buffers s') = map (\<lambda>n. n + (3 - 1)) (map length (buffers sample))"
    and c: "messages (last (sessions (dataset s') ! 0)) = []"
    by blast+
  then have a: "message_count s' = 2" and b: "map length (buffers s') = replicate 12 2"
    by (simp_all add: sample_def new_CalculateMCPMetrics_def buffers_def new_RawSemanticData_def
        new_RawLLMData_def eval_nat_numeral)
  show ?thesis
    unfolding s' fst_conv snd_conv using a b c by simp
qed












subsection \<open>Failing and repeated runs\<close>

lemma for_each_append:
  "for_each (xs @ ys) body = seq (for_each xs body) (\<lambda>_. for_each ys body)"
proof (induction xs)
  case Nil
  show ?case by (rule ext) (simp add: seq_def ret_def)
next
  case (Cons x xs)
  show ?case
    by (rule ext) (simp add: Cons seq_def split: prod.splits sum.splits)
qed

lemma upt_split_at:
  assumes "[0..<n] = ys @ j # zs"
  shows "j < n" and "ys = [0..<j]"
proof -
  have "j \<in> set [0..<n]" unfolding assms by simp
  then show j: "j < n" by simp
  have len: "length ys < n" using arg_cong[OF assms, of length] by simp
  have "[0..<n] ! length ys = j" unfolding assms by simp
  with len have l: "length ys = j" by simp
  have "ys = take (length ys) [0..<n]" unfolding assms by simp
  also have "\<dots> = [0..<j]" using j by (simp add: l)
  finally show "ys = [0..<j]" .
qed

lemma for_each_fails_at:
  assumes "j < n" and "for_each [0..<j] body s = (Inr (), t)" and "body j t = (Inl e, s')"
  shows "for_each [0..<n] body s = (Inl e, s')"
proof -
  have "[0..<n] = [0..<j] @ j # [Suc j..<n]"
    using assms(1) by (metis less_imp_add_positive upt_add_eq_append upt_conv_Cons zero_le)
  then show ?thesis
    by (simp add: for_each_append seq_def assms(2,3))
qed

text \<open>
  Claim C1, as amended. The module catches no exception. \<open>calculate\<close> ends with an error
  exactly when the replay of some dialogue raises it after the dialogues before it were
  replayed to the end: the exception leaves \<open>_process_dialogue\<close> and \<open>calculate\<close>, and the
  state it leaves behind is the state at the failure. The run is aborted as a whole: the
  flag is not set and the dialogues after the failing one are not attempted, they are as
  they were. Nothing is rolled back: every buffer at the start of the run is an initial
  part of the buffer at the start of the failing dialogue, and that one of the buffer
  left behind.
\<close>

theorem calculate_failure:
  "(calculate env s = (Inl e, s') \<longleftrightarrow>
      (\<exists>j s1. j < length (sessions (dataset s)) \<and>
         for_each [0..<j] (process_dialogue env) s = (Inr (), s1) \<and>
         process_dialogue env j s1 = (Inl e, s'))) \<and>
   (\<forall>j s1. j < length (sessions (dataset s)) \<and>
         for_each [0..<j] (process_dialogue env) s = (Inr (), s1) \<and>
         process_dialogue env j s1 = (Inl e, s') \<longrightarrow>
       is_calculated s' = is_calculated s \<and>
       list_all2 prefix (buffers s) (buffers s1) \<and>
       list_all2 prefix (buffers s1) (buffers s') \<and>
       (\<forall>k. j < k \<longrightarrow> sessions (dataset s') ! k = sessions (dataset s) ! k))"
proof -
  let ?n = "length (sessions (dataset s))"
  let ?fails = "\<lambda>j s1. j < ?n \<and> for_each [0..<j] (process_dialogue env) s = (Inr (), s1) \<and>
         process_dialogue env j s1 = (Inl e, s')"
  have forth: "\<exists>j s1. ?fails j s1" if "calculate env s = (Inl e, s')"
  proof -
    from calculate_Inl[OF that]
    have loop: "for_each [0..<?n] (process_dialogue env) s = (Inl e, s')" .
    from for_each_Inl[OF loop] obtain ys j zs s1 where
      split: "[0..<?n] = ys @ j # zs"
      and before: "for_each ys (process_dialogue env) s = (Inr (), s1)"
      and fail: "process_dialogue env j s1 = (Inl e, s')"
      by blast
    from upt_split_at[OF split] before fail show ?thesis by blast
  qed
  have bk: "calculate env s = (Inl e, s')" if "?fails j s1" for j s1
  proof -
    from that have "for_each [0..<?n] (process_dialogue env) s = (Inl e, s')"
      by (intro for_each_fails_at[where j = j and t = s1]) simp_all
    then show ?thesis
      by (simp add: calculate_def seq_def reads_def)
  qed
  have kept: "is_calculated s' = is_calculated s \<and>
       list_all2 prefix (buffers s) (buffers s1) \<and>
       list_all2 prefix (buffers s1) (buffers s') \<and>
       (\<forall>k. j < k \<longrightarrow> sessions (dataset s') ! k = sessions (dataset s) ! k)"
    if "?fails j s1" for j s1
  proof -
    from that have before: "for_each [0..<j] (process_dialogue env) s = (Inr (), s1)"
      and fail: "process_dialogue env j s1 = (Inl e, s')"
      by simp_all
    note r = keeps_run_calculate_loop[OF before]
    note ev = keepsD[OF keeps_process_dialogue fail]
    have "sessions (dataset s') ! k = sessions (dataset s) ! k" if k: "j < k" for k
    proof -
      from k have "k \<notin> set [0..<j]" by simp
      from for_each_untouched[OF before this]
      have "sessions (dataset s1) ! k = sessions (dataset s) ! k" .
      moreover from ev k have "sessions (dataset s') ! k = sessions (dataset s1) ! k"
        by (simp add: evolves_def data_evolves_def)
      ultimately show ?thesis by simp
    qed
    with r ev show ?thesis
      by (simp add: run_evolves_def evolves_def)
  qed
  from forth bk have "calculate env s = (Inl e, s') \<longleftrightarrow> (\<exists>j s1. ?fails j s1)"
    by blast
  moreover from kept have "\<forall>j s1. ?fails j s1 \<longrightarrow>
       is_calculated s' = is_calculated s \<and>
       list_all2 prefix (buffers s) (buffers s1) \<and>
       list_all2 prefix (buffers s1) (buffers s') \<and>
       (\<forall>k. j < k \<longrightarrow> sessions (dataset s') ! k = sessions (dataset s) ! k)"
    by blast
  ultimately show ?thesis by (rule conjI)
qed

lemma flaky_dialogue: "fst (process_dialogue flaky 0 sample) = Inl (CallFailed ''scorer'')"
  by code_simp

theorem calculate_failure_witness:
  "fst (process_dialogue flaky 0 sample) = Inl (CallFailed ''scorer'') \<and>
   calculate flaky sample = process_dialogue flaky 0 sample \<and>
   is_calculated (snd (calculate flaky sample)) = is_calculated sample \<and>
   list_all2 prefix (buffers sample) (buffers (snd (calculate flaky sample)))"
proof -
  obtain s' where fail: "process_dialogue flaky 0 sample = (Inl (CallFailed ''scorer''), s')"
    using flaky_dialogue by (cases "process_dialogue flaky 0 sample") simp
  have j: "0 < length (sessions (dataset sample))"
    by (simp add: sample_def sample_dataset_def new_CalculateMCPMetrics_def)
  have before: "for_each [0..<0] (process_dialogue flaky) sample = (Inr (), sample)"
    by (simp add: ret_def)
  note t = calculate_failure[of flaky sample "CallFailed ''scorer''" s']
  from t j before fail have run: "calculate flaky sample = (Inl (CallFailed ''scorer''), s')"
    by blast
  from t j before fail have "is_calculated s' = is_calculated sample"
    and "list_all2 prefix (buffers sample) (buffers s')"
    by blast+
  then show ?thesis
    unfolding run fail fst_conv snd_conv by simp
qed

text \<open>
  The claim as stated fails on the sample dataset when the similarity scorer raises in
  the second turn of the first dialogue: \<open>calculate\<close> ends with that exception, the second
  dialogue still holds all its messages and the flag is not set.
\<close>

theorem calculate_failure_counterexample:
  "fst (calculate flaky sample) = Inl (CallFailed ''scorer'') \<and>
   sessions (dataset (snd (calculate flaky sample))) ! 1 = sessions (dataset sample) ! 1 \<and>
   message_count (snd (calculate flaky sample)) = 2 \<and>
   precision (recsum_semantic_data (snd (calculate flaky sample))) = [1 / 2] \<and>
   \<not> is_calculated (snd (calculate flaky sample))"
  unfolding flaky_run fst_conv snd_conv
  by (simp add: sample_def sample_dataset_def new_CalculateMCPMetrics_def)

text \<open>For the proofs: the report that \<open>results\<close> builds from a state at a given time.\<close>

definition report_at :: "string \<Rightarrow> 'w CalculateMCPMetrics \<Rightarrow> MCPResults" where
  "report_at now s =
     \<lparr>metadata =
        \<lparr>timestamp = now, md_n_samples = n_samples s,
         md_message_count = message_count s, version = ''1.0''\<rparr>,
      recsum_results =
        \<lparr>semantic_precision = from_values (precision (recsum_semantic_data s)),
         semantic_recall = from_values (recall (recsum_semantic_data s)),
         semantic_f1 = from_values (f1 (recsum_semantic_data s)),
         llm_faithfulness = from_values (faithfulness (recsum_llm_data s)),
         llm_informativeness = from_values (informativeness (recsum_llm_data s)),
         llm_coherency = from_values (coherency (recsum_llm_data s))\<rparr>,
      baseline_results =
        \<lparr>semantic_precision = from_values (precision (baseline_semantic_data s)),
         semantic_recall = from_values (recall (baseline_semantic_data s)),
         semantic_f1 = from_values (f1 (baseline_semantic_data s)),
         llm_faithfulness = from_values (faithfulness (baseline_llm_data s)),
         llm_informativeness = from_values (informativeness (baseline_llm_data s)),
         llm_coherency = from_values (coherency (baseline_llm_data s))\<rparr>,
      pairwise_results = pairwise_data s\<rparr>"

lemma results_report:
  "results env =
     seq (\<lambda>s. if \<not> is_calculated s then calculate env s else ret () s) (\<lambda>_.
     seq (call_total (now_isoformat env)) (\<lambda>now. reads (report_at now)))"
  unfolding results_def report_at_def ..

lemma report_at_world: "report_at now (s\<lparr>world := w\<rparr>) = report_at now s"
  by (simp add: report_at_def)

lemma results_calculated:
  assumes "is_calculated s"
  shows "results env s =
     (Inr (report_at (fst (now_isoformat env (world s))) s),
      s\<lparr>world := snd (now_isoformat env (world s))\<rparr>)"
  using assms unfolding results_report
  by (simp add: seq_def ret_def call_total_def reads_def report_at_world split: prod.splits)

lemma results_Inr:
  assumes "results env s = (Inr r, s')"
  shows "is_calculated s' \<and> (\<exists>now. r = report_at now s')"
proof -
  from assms obtain sa now sb where
    1: "(if \<not> is_calculated s then calculate env s else ret () s) = (Inr (), sa)"
    and 2: "call_total (now_isoformat env) sa = (Inr now, sb)"
    and 3: "s' = sb" "r = report_at now sb"
    unfolding results_report by (auto simp: seq_Inr_iff reads_iff)
  have "is_calculated sa"
  proof (cases "is_calculated s")
    case True
    with 1 show ?thesis by (simp add: ret_def)
  next
    case False
    with 1 have "calculate env s = (Inr (), sa)" by simp
    then show ?thesis by (auto elim!: calculate_Inr)
  qed
  moreover from 2 have "is_calculated sb = is_calculated sa"
    by (auto simp: call_total_iff)
  ultimately show ?thesis using 3 by auto
qed

text \<open>
  Claim C2, as amended. The report is not cached: every access of \<open>results\<close> builds a new
  report from the buffers and stamps it with the time read from the clock at that access.
  After an access that returned, a second access without a \<open>calculate\<close> in between does
  not replay (outside the collaborators' world the state is left as it is) and returns
  the same statistics for both systems, the same tallies, sample count, turn count and
  version; its timestamp is the clock's reading at the second access.
\<close>

theorem results_twice:
  assumes "results env s = (Inr r1, s1)"
  shows "\<exists>r2 w2. results env s1 = (Inr r2, s1\<lparr>world := w2\<rparr>) \<and>
     recsum_results r2 = recsum_results r1 \<and>
     baseline_results r2 = baseline_results r1 \<and>
     pairwise_results r2 = pairwise_results r1 \<and>
     md_n_samples (metadata r2) = md_n_samples (metadata r1) \<and>
     md_message_count (metadata r2) = md_message_count (metadata r1) \<and>
     version (metadata r2) = version (metadata r1) \<and>
     timestamp (metadata r2) = fst (now_isoformat env (world s1))"
proof -
  from results_Inr[OF assms] obtain now where flag: "is_calculated s1"
    and r1: "r1 = report_at now s1"
    by blast
  let ?r2 = "report_at (fst (now_isoformat env (world s1))) s1"
  have "results env s1 = (Inr ?r2, s1\<lparr>world := snd (now_isoformat env (world s1))\<rparr>)"
    using flag by (rule results_calculated)
  moreover have "recsum_results ?r2 = recsum_results r1"
    "baseline_results ?r2 = baseline_results r1"
    "pairwise_results ?r2 = pairwise_results r1"
    "md_n_samples (metadata ?r2) = md_n_samples (metadata r1)"
    "md_message_count (metadata ?r2) = md_message_count (metadata r1)"
    "version (metadata ?r2) = version (metadata r1)"
    "timestamp (metadata ?r2) = fst (now_isoformat env (world s1))"
    by (simp_all add: r1 report_at_def)
  ultimately show ?thesis by blast
qed

lemma now_isoformat_stub: "now_isoformat stub w = (replicate w CHR ''t'', Suc w)"
  by (simp add: stub_def)

lemma not_calculated_sample: "\<not> is_calculated sample"
  by (simp add: sample_def new_CalculateMCPMetrics_def)

lemma results_sample:
  "\<exists>r1 s1. results stub sample = (Inr r1, s1) \<and> world s1 = 25 \<and>
     timestamp (metadata r1) = replicate 24 CHR ''t''"
proof -
  obtain s0 where run: "calculate stub sample = (Inr (), s0)" and w: "world s0 = 24"
    using sample_run by simp
  show ?thesis
    unfolding results_report
    by (simp add: seq_def not_calculated_sample run call_total_def now_isoformat_stub reads_def w
        report_at_def)
qed

theorem results_twice_witness:
  "\<exists>r1 s1 r2 s2. results stub sample = (Inr r1, s1) \<and> results stub s1 = (Inr r2, s2) \<and>
     recsum_results r2 = recsum_results r1 \<and> baseline_results r2 = baseline_results r1 \<and>
     pairwise_results r2 = pairwise_results r1 \<and>
     md_message_count (metadata r2) = md_message_count (metadata r1)"
proof -
  from results_sample obtain r1 s1 where 1: "results stub sample = (Inr r1, s1)" by blast
  from results_twice[OF 1] obtain r2 w2 where "results stub s1 = (Inr r2, s1\<lparr>world := w2\<rparr>)"
    and "recsum_results r2 = recsum_results r1" and "baseline_results r2 = baseline_results r1"
    and "pairwise_results r2 = pairwise_results r1"
    and "md_message_count (metadata r2) = md_message_count (metadata r1)"
    by blast
  with 1 show ?thesis by blast
qed

text \<open>
  The claim as stated fails on the sample dataset with a clock that advances: the two
  reports differ, the first being stamped at tick 24 and the second at tick 25.
\<close>

theorem results_twice_counterexample:
  "fst (results stub (snd (results stub sample))) \<noteq> fst (results stub sample)"
proof -
  from results_sample obtain r1 s1 where 1: "results stub sample = (Inr r1, s1)"
    and w: "world s1 = 25" and t1: "timestamp (metadata r1) = replicate 24 CHR ''t''"
    by blast
  from results_Inr[OF 1] have "is_calculated s1" by simp
  note 2 = results_calculated[OF this, of stub]
  have "timestamp (metadata (report_at (fst (now_isoformat stub (world s1))) s1))
      = replicate 25 CHR ''t''"
    by (simp add: w now_isoformat_stub report_at_def)
  with t1 have "length (timestamp (metadata (report_at (fst (now_isoformat stub (world s1))) s1)))
      \<noteq> length (timestamp (metadata r1))"
    by simp
  then have "report_at (fst (now_isoformat stub (world s1))) s1 \<noteq> r1" by auto
  then show ?thesis unfolding 1 snd_conv fst_conv 2 by simp
qed


text \<open>
  A program is blind to the flag when setting the flag beforehand changes neither its
  outcome nor, the flag apart, the state it leaves.
\<close>

definition flag_blind :: "('w CalculateMCPMetrics, 'a) prog \<Rightarrow> bool" where
  "flag_blind m \<longleftrightarrow>
     (\<forall>s b. m (s\<lparr>is_calculated := b\<rparr>) = (case m s of (r, s') \<Rightarrow> (r, s'\<lparr>is_calculated := b\<rparr>)))"

lemma flag_blindD:
  "flag_blind m \<Longrightarrow> m s = (r, s') \<Longrightarrow> m (s\<lparr>is_calculated := b\<rparr>) = (r, s'\<lparr>is_calculated := b\<rparr>)"
  by (simp add: flag_blind_def)

lemma flag_blind_seq:
  assumes "flag_blind m" and "\<And>a. flag_blind (f a)"
  shows "flag_blind (seq m f)"
  unfolding flag_blind_def
proof (intro allI)
  fix s b
  obtain r s1 where m: "m s = (r, s1)" by (cases "m s")
  note mb = flag_blindD[OF assms(1) m, of b]
  show "seq m f (s\<lparr>is_calculated := b\<rparr>) =
      (case seq m f s of (r, s') \<Rightarrow> (r, s'\<lparr>is_calculated := b\<rparr>))"
  proof (cases r)
    case (Inl e)
    with m mb show ?thesis by (simp add: seq_def)
  next
    case (Inr a)
    obtain r2 s2 where f: "f a s1 = (r2, s2)" by (cases "f a s1")
    from flag_blindD[OF assms(2) f, of b] m mb f Inr show ?thesis
      by (simp add: seq_def)
  qed
qed

lemma flag_blind_ret: "flag_blind (ret a)"
  by (simp add: flag_blind_def ret_def)

lemma flag_blind_raise: "flag_blind (raise e)"
  by (simp add: flag_blind_def raise_def)

lemma flag_blind_reads:
  "(\<And>s b. f (s\<lparr>is_calculated := b\<rparr>) = f s) \<Longrightarrow> flag_blind (reads f)"
  by (simp add: flag_blind_def reads_def)

lemma flag_blind_modify:
  "(\<And>s b. f (s\<lparr>is_calculated := b\<rparr>) = (f s)\<lparr>is_calculated := b\<rparr>) \<Longrightarrow> flag_blind (modify f)"
  by (simp add: flag_blind_def modify_def)

lemma flag_blind_call: "flag_blind (call f)"
  by (simp add: flag_blind_def call_def split: prod.splits)

lemma flag_blind_call_total: "flag_blind (call_total f)"
  by (simp add: flag_blind_def call_total_def split: prod.splits)

lemma flag_blind_on_pairwise: "flag_blind (on_pairwise m)"
  by (simp add: flag_blind_def on_pairwise_def split: prod.splits)

lemma flag_blind_get_dialogue: "flag_blind (get_dialogue i)"
  by (simp add: flag_blind_def get_dialogue_def)

lemma flag_blind_lookup_memory: "flag_blind (lookup_memory i)"
  by (simp add: flag_blind_def lookup_memory_def Let_def)

lemma set_last_messages_flag:
  "set_last_messages i ms (s\<lparr>is_calculated := b\<rparr>) = (set_last_messages i ms s)\<lparr>is_calculated := b\<rparr>"
  by (simp add: set_last_messages_def Let_def)

lemma flag_blind_if: "flag_blind m \<Longrightarrow> flag_blind n \<Longrightarrow> flag_blind (if c then m else n)"
  by simp

lemma flag_blind_pop_message: "flag_blind (pop_message i)"
  unfolding pop_message_def
  by (intro flag_blind_seq flag_blind_get_dialogue flag_blind_if flag_blind_raise
      flag_blind_modify flag_blind_ret set_last_messages_flag)

lemma flag_blind_update_semantic_scores: "flag_blind (update_semantic_scores env a b c)"
  unfolding update_semantic_scores_def
  by (intro flag_blind_seq flag_blind_call flag_blind_modify) simp_all

lemma flag_blind_update_llm_single_scores: "flag_blind (update_llm_single_scores env a b c d)"
  unfolding update_llm_single_scores_def
  by (intro flag_blind_seq flag_blind_call flag_blind_modify) simp_all

lemma flag_blind_update_llm_pairwise_scores:
  "flag_blind (update_llm_pairwise_scores env a b c d)"
  unfolding update_llm_pairwise_scores_def
  by (intro flag_blind_seq flag_blind_call_total flag_blind_if flag_blind_call
      flag_blind_on_pairwise)

lemma flag_blind_turn: "flag_blind (turn env i ideal)"
  unfolding turn_def
  by (intro flag_blind_seq flag_blind_modify flag_blind_pop_message flag_blind_get_dialogue
      flag_blind_call flag_blind_update_semantic_scores flag_blind_reads
      flag_blind_lookup_memory flag_blind_update_llm_single_scores
      flag_blind_update_llm_pairwise_scores) simp_all

lemma replay_flag:
  "replay env i ideal (s\<lparr>is_calculated := b\<rparr>) =
     (case replay env i ideal s of (r, s') \<Rightarrow> (r, s'\<lparr>is_calculated := b\<rparr>))"
proof (induction "length (messages (last (sessions (dataset s) ! i)))" arbitrary: s)
  case 0
  then have stop: "\<not> (i < length (sessions (dataset s)) \<and> sessions (dataset s) ! i \<noteq> [] \<and>
     messages (last (sessions (dataset s) ! i)) \<noteq> [])" by simp
  then have stop': "\<not> (i < length (sessions (dataset (s\<lparr>is_calculated := b\<rparr>))) \<and>
     sessions (dataset (s\<lparr>is_calculated := b\<rparr>)) ! i \<noteq> [] \<and>
     messages (last (sessions (dataset (s\<lparr>is_calculated := b\<rparr>)) ! i)) \<noteq> [])" by simp
  show ?case unfolding replay_stop[OF stop] replay_stop[OF stop'] by simp
next
  case (Suc n)
  let ?sb = "s\<lparr>is_calculated := b\<rparr>"
  show ?case
  proof (cases "i < length (sessions (dataset s)) \<and> sessions (dataset s) ! i \<noteq> []")
    case False
    then have stop: "\<not> (i < length (sessions (dataset s)) \<and> sessions (dataset s) ! i \<noteq> [] \<and>
       messages (last (sessions (dataset s) ! i)) \<noteq> [])" by simp
    then have stop': "\<not> (i < length (sessions (dataset ?sb)) \<and>
       sessions (dataset ?sb) ! i \<noteq> [] \<and>
       messages (last (sessions (dataset ?sb) ! i)) \<noteq> [])" by simp
    show ?thesis unfolding replay_stop[OF stop] replay_stop[OF stop'] by simp
  next
    case True
    have ms: "messages (last (sessions (dataset s) ! i)) \<noteq> []" using Suc(2) by auto
    have step: "replay env i ideal s =
      (case turn env i ideal s of (Inl e, s'') \<Rightarrow> (Inl e, s'') | (Inr u, s'') \<Rightarrow> replay env i ideal s'')"
      using True ms by (intro replay_step) simp_all
    have step': "replay env i ideal ?sb =
      (case turn env i ideal ?sb of (Inl e, s'') \<Rightarrow> (Inl e, s'') | (Inr u, s'') \<Rightarrow> replay env i ideal s'')"
      using True ms by (intro replay_step) simp_all
    obtain r s1 where t: "turn env i ideal s = (r, s1)" by (cases "turn env i ideal s")
    note tb = flag_blindD[OF flag_blind_turn t, of b]
    show ?thesis
    proof (cases r)
      case (Inl e)
      then show ?thesis unfolding step step' by (simp add: t tb)
    next
      case (Inr u)
      with t have t': "turn env i ideal s = (Inr u, s1)" by simp
      have len: "n = length (messages (last (sessions (dataset s1) ! i)))"
        using Suc(2) by (simp add: turn_Inr_messages(3)[OF t'])
      from Suc(1)[OF len] show ?thesis
        unfolding step step' by (simp add: t tb Inr)
    qed
  qed
qed

lemma flag_blind_replay: "flag_blind (replay env i ideal)"
  unfolding flag_blind_def by (intro allI replay_flag)

lemma flag_blind_process_dialogue: "flag_blind (process_dialogue env i)"
  unfolding process_dialogue_def
  by (intro flag_blind_seq flag_blind_pop_message flag_blind_replay)

lemma flag_blind_for_each:
  assumes "\<And>x. flag_blind (body x)"
  shows "flag_blind (for_each xs body)"
  by (induction xs) (auto intro!: flag_blind_seq flag_blind_ret assms)

text \<open>
  Claim C3, as amended. \<open>calculate\<close> has no guard: it never reads the flag, and the module
  has no reset. A call on a state whose flag is set runs the same replay, with the same
  outcome and the same changes of state, as the call on that state with the flag not
  set. The guard is in \<open>results\<close>: with the flag set it does not run \<open>calculate\<close> (outside the
  collaborators' world the state is left as it is), and with the flag not set it runs
  it, an exception of the run leaving \<open>results\<close> as it left \<open>calculate\<close>.
\<close>

theorem calculate_ignores_flag:
  "calculate env (s\<lparr>is_calculated := b\<rparr>) =
     (case calculate env s of
        (Inl e, s') \<Rightarrow> (Inl e, s'\<lparr>is_calculated := b\<rparr>)
      | (Inr u, s') \<Rightarrow> (Inr u, s')) \<and>
   (is_calculated s \<longrightarrow>
      (\<exists>r. results env s = (Inr r, s\<lparr>world := snd (now_isoformat env (world s))\<rparr>))) \<and>
   (\<not> is_calculated s \<longrightarrow>
      (\<forall>e s'. calculate env s = (Inl e, s') \<longrightarrow> results env s = (Inl e, s')))"
proof (intro conjI impI allI)
  let ?n = "length (sessions (dataset s))"
  obtain r s1 where loop: "for_each [0..<?n] (process_dialogue env) s = (r, s1)"
    by (cases "for_each [0..<?n] (process_dialogue env) s")
  note loopb = flag_blindD[OF flag_blind_for_each[OF flag_blind_process_dialogue] loop, of b]
  show "calculate env (s\<lparr>is_calculated := b\<rparr>) =
     (case calculate env s of
        (Inl e, s') \<Rightarrow> (Inl e, s'\<lparr>is_calculated := b\<rparr>)
      | (Inr u, s') \<Rightarrow> (Inr u, s'))"
    by (cases r) (simp_all add: calculate_def seq_def reads_def modify_def loop loopb)
next
  assume "is_calculated s"
  from results_calculated[OF this, of env]
  show "\<exists>r. results env s = (Inr r, s\<lparr>world := snd (now_isoformat env (world s))\<rparr>)"
    by blast
next
  fix e s'
  assume "\<not> is_calculated s" and "calculate env s = (Inl e, s')"
  then show "results env s = (Inl e, s')"
    unfolding results_report by (simp add: seq_def)
qed

theorem calculate_ignores_flag_witness:
  "calculate stub (sample\<lparr>is_calculated := True\<rparr>) = calculate stub sample \<and>
   fst (calculate stub sample) = Inr ()"
proof -
  obtain s' where run: "calculate stub sample = (Inr (), s')"
    using sample_run by simp
  from calculate_ignores_flag[where env = stub and s = sample and b = True, THEN conjunct1] show ?thesis
    unfolding run by simp
qed

text \<open>
  The claim as stated fails on the sample dataset: the first \<open>calculate\<close> returns, the
  second raises \<open>IndexError\<close>.
\<close>

theorem calculate_twice_counterexample:
  "fst (calculate stub sample) = Inr () \<and>
   fst (calculate stub (snd (calculate stub sample))) = Inl IndexError"
  by code_simp


text \<open>
  Claim C4. The claim is that the dataset's sessions, with every message list, are after
  \<open>calculate\<close> as they were loaded. \<open>calculate\<close> copies the list of dialogues before the
  replay, but the copy holds the dataset's own dialogue objects, and the replay removes
  the messages from them: on the sample dataset the run returns, and the second dialogue,
  loaded with a session of two messages, is left with a session of none.
\<close>

theorem calculate_mutates_dataset:
  "fst (calculate stub sample) = Inr () \<and>
   sessions (dataset sample) ! 1 =
     [\<lparr>messages = [\<lparr>role = ''user'', message = ''p''\<rparr>,
                   \<lparr>role = ''assistant'', message = ''best''\<rparr>]\<rparr>] \<and>
   sessions (dataset (snd (calculate stub sample))) ! 1 = [\<lparr>messages = []\<rparr>]"
  unfolding sample_run fst_conv snd_conv
  by (simp add: sample_def sample_dataset_def new_CalculateMCPMetrics_def)

theorem calculate_needs_final_message_witness:
  "process_dialogue stub 0 (snd (calculate stub sample)) =
     (Inl IndexError, snd (calculate stub sample)) \<and>
   list_all (\<lambda>d. d \<noteq> [] \<and> messages (last d) \<noteq> []) (sessions (dataset sample))"
proof -
  obtain s1 where run: "calculate stub sample = (Inr (), s1)"
    and d: "dataset s1 = \<lparr>sessions =
           [[\<lparr>messages = [\<lparr>role = ''user'', message = ''old''\<rparr>]\<rparr>, \<lparr>messages = []\<rparr>],
            [\<lparr>messages = []\<rparr>]],
         memory = [[''m0''], [''m1'']]\<rparr>"
    using sample_run by simp
  have pre: "0 < length (sessions (dataset s1)) \<and> sessions (dataset s1) ! 0 \<noteq> [] \<and>
      messages (last (sessions (dataset s1) ! 0)) = []"
    by (simp add: d)
  note t1 = calculate_needs_final_message[where i = 0 and s = s1 and env = stub, THEN conjunct1]
  note t2 = calculate_needs_final_message[where s = sample and env = stub and u = "()"
      and s' = s1, THEN conjunct2]
  from t1 pre have "process_dialogue stub 0 s1 = (Inl IndexError, s1)" by blast
  moreover from t2 run have "\<forall>d\<in>set (sessions (dataset sample)). d \<noteq> [] \<and> messages (last d) \<noteq> []"
    by blast
  ultimately show ?thesis
    unfolding run snd_conv by (simp add: list_all_iff)
qed

end
